theory Spec2Isabelle
  imports Main "HOL-Library.Word"
begin

unbundle bit_operations_syntax

section \<open>Errors and panics\<close>

text \<open>
  Every \<open>errors.New\<close> / \<open>fmt.Errorf\<close> site of the two source files is one constructor;
  the message text is kept only where it carries the offending string.
\<close>

datatype error =
    NotValidOption string string
    \<comment> \<open>flags\_string.go:30, "String: s is not a valid option for type: T"\<close>
  | MustPassPointer
    \<comment> \<open>enums.go:345, 377, 499: the reflect.Value is not of kind Ptr\<close>
  | FromStringNotFound
    \<comment> \<open>enums.go:353: the type has no FromString method\<close>
  | NoAltStrings
    \<comment> \<open>enums.go:385: no alternative string map for the type\<close>
  | AltStringNotFound string
    \<comment> \<open>enums.go:394: string not found in the alt list\<close>

datatype panic =
    NilMapWrite
    \<comment> \<open>assignment to an entry in a nil map\<close>
  | TypeAssertion
    \<comment> \<open>\<open>x.(int64)\<close> on a nil interface or on a value of another type\<close>
  | MakeSliceLen
    \<comment> \<open>\<open>make([]T, n)\<close> with negative n\<close>
  | ReflectNewNil
    \<comment> \<open>\<open>reflect.New(nil)\<close>\<close>

section \<open>strconv.FormatInt, base 10\<close>

definition digit_char :: "nat \<Rightarrow> char" where
  "digit_char d = ''0123456789'' ! d"

function FormatUint :: "nat \<Rightarrow> string" where
  "FormatUint n = (if n < 10 then [digit_char n] else FormatUint (n div 10) @ [digit_char (n mod 10)])"
  by pat_completeness auto
termination
  by (relation "measure id") auto

declare FormatUint.simps [simp del]

definition FormatInt :: "int \<Rightarrow> string" where
  "FormatInt i = (if i < 0 then CHR ''-'' # FormatUint (nat (- i)) else FormatUint (nat i))"

section \<open>The generated stringer code (ki/flags\_string.go)\<close>

text \<open>
  \<open>flags_string.go\<close> is the output of the stringer generator for the type \<open>Flags\<close>:
  a string constant holding all names back to back, an index table of their offsets, and
  the two methods \<open>String\<close> and \<open>FromString\<close> over them. The two tables and the type
  name are the only type-specific parts, so the methods are embedded once over a record
  of the tables, and \<open>Flags\<close> is the instance with the tables of the source file.

  A value of the enum type is an \<open>int\<close>: the methods only compare it with constants,
  index with it inside the checked range and widen it to \<open>int64\<close>, so nothing wraps.
\<close>

record stringer =
  type_name :: string
  name_tab :: string
  index_tab :: "nat list"

definition slice :: "string \<Rightarrow> nat \<Rightarrow> nat \<Rightarrow> string" where
  \<comment> \<open>Go's \<open>s[lo:hi]\<close> for \<open>lo \<le> hi \<le> len(s)\<close>\<close>
  "slice s lo hi = take (hi - lo) (drop lo s)"

definition name_at :: "stringer \<Rightarrow> nat \<Rightarrow> string" where
  \<comment> \<open>\<open>_T_name[_T_index[j]:_T_index[j+1]]\<close>\<close>
  "name_at st j = slice (name_tab st) (index_tab st ! j) (index_tab st ! (j + 1))"

definition String_of :: "stringer \<Rightarrow> int \<Rightarrow> string" where
  "String_of st i =
     (if i < 0 \<or> i \<ge> int (length (index_tab st)) - 1
      then type_name st @ ''('' @ FormatInt i @ '')''
      else name_at st (nat i))"

function FromString_loop :: "stringer \<Rightarrow> string \<Rightarrow> nat \<Rightarrow> nat option" where
  "FromString_loop st s j =
     (if j < length (index_tab st) - 1
      then (if s = name_at st j then Some j else FromString_loop st s (j + 1))
      else None)"
  by pat_completeness auto
termination
  by (relation "measure (\<lambda>(st, s, j). length (index_tab st) - 1 - j)") auto

declare FromString_loop.simps [simp del]

definition FromString_of :: "stringer \<Rightarrow> string \<Rightarrow> int \<Rightarrow> error option \<times> int" where
  \<comment> \<open>pointer receiver: takes the value behind the pointer, returns the error and the
      value behind the pointer afterwards\<close>
  "FromString_of st s i =
     (case FromString_loop st s 0 of
        Some j \<Rightarrow> (None, int j)
      | None \<Rightarrow> (Some (NotValidOption s (type_name st)), i))"

definition stringer_names :: "stringer \<Rightarrow> string list" where
  \<comment> \<open>the names the tables hold, in ordinal order\<close>
  "stringer_names st = map (name_at st) [0..<length (index_tab st) - 1]"

definition Flags_stringer :: stringer where
  "Flags_stringer =
     \<lparr> type_name = ''Flags'',
       name_tab = ''IsFieldHasKiFieldsHasNoKiFieldsUpdatingOnlySelfUpdateNodeAddedNodeCopiedNodeMovedNodeDeletedNodeDestroyedChildAddedChildMovedChildDeletedChildrenDeletedFieldUpdatedPropUpdatedFlagsN'',
       index_tab = [0, 7, 18, 31, 39, 53, 62, 72, 81, 92, 105, 115, 125, 137, 152, 164, 175, 181] \<rparr>"

definition Flags_String :: "int \<Rightarrow> string" where
  "Flags_String = String_of Flags_stringer"

definition Flags_FromString :: "string \<Rightarrow> int \<Rightarrow> error option \<times> int" where
  "Flags_FromString = FromString_of Flags_stringer"

section \<open>Values and types as the kit package sees them through reflection (kit/enums.go)\<close>

text \<open>
  \<open>enums.go\<close> reaches every enum type through \<open>reflect\<close>: it reads the type's short
  name, looks the methods \<open>String\<close> and \<open>FromString\<close> up at run time, and moves the
  value in and out of an \<open>int64\<close>. A \<open>reflect.Type\<close> is therefore a record of exactly
  these: the short name and the two methods, each absent when the type does not have it.
  An \<open>interface{}\<close> or \<open>reflect.Value\<close> holding an enum is either the value itself
  or a pointer to it; for a pointer the model carries the value behind it, and a function
  that writes through the pointer returns the new one.

  Enum values are \<open>int\<close>. The loops of this file only convert ordinals between 0 and
  the count \<open>N\<close> to the enum type, and \<open>N\<close> is itself a value of that type, so these
  conversions change nothing. Bit-flag sets are \<open>int64\<close>, here \<open>64 word\<close>.
  \<open>log.Printf\<close> calls change no state and are left out.
\<close>

record reflect_Type =
  ShortTypeName :: string
  String_method :: "(int \<Rightarrow> string) option"
  FromString_method :: "(string \<Rightarrow> int \<Rightarrow> error option \<times> int) option"

datatype go_value = Pointer reflect_Type int | Direct reflect_Type int

text \<open>
  Modelled from the spec: the type introspection helpers \<open>PtrType\<close>, \<open>NonPtrType\<close>,
  \<open>NonPtrValue\<close> and \<open>ShortTypeName\<close> of package \<open>kit\<close> are not in the source
  files at hand. The spec has them "normalize a typed handle to its non-pointer form" and
  "compute a short qualified type identifier": \<open>NonPtrType_of\<close> is the type with the
  pointer taken off, \<open>NonPtrValue_of\<close> the value behind it, and the short name is the
  field \<open>ShortTypeName\<close> of the type.
\<close>

fun NonPtrType_of :: "go_value \<Rightarrow> reflect_Type" where
  "NonPtrType_of (Pointer t v) = t"
| "NonPtrType_of (Direct t v) = t"

fun NonPtrValue_of :: "go_value \<Rightarrow> int" where
  "NonPtrValue_of (Pointer t v) = v"
| "NonPtrValue_of (Direct t v) = v"

text \<open>
  Modelled from the spec: \<open>ToInt\<close> and \<open>ToBool\<close> of package \<open>kit\<close> are not in the
  source files at hand; the spec has them "coerce loosely-typed values to bool/int".
  The second component tells whether the coercion was possible; nil is not coercible.
\<close>

datatype prop_val =
    PInt64 int
  | PBool bool
  | PAltStrings "int \<Rightarrow> string option"
  | POther string

definition ToInt :: "prop_val option \<Rightarrow> int \<times> bool" where
  "ToInt p = (case p of
       Some (PInt64 n) \<Rightarrow> (n, True)
     | Some (PBool b) \<Rightarrow> ((if b then 1 else 0), True)
     | _ \<Rightarrow> (0, False))"

definition ToBool :: "prop_val option \<Rightarrow> bool \<times> bool" where
  "ToBool p = (case p of
       Some (PBool b) \<Rightarrow> (b, True)
     | Some (PInt64 n) \<Rightarrow> (n \<noteq> 0, True)
     | _ \<Rightarrow> (False, False))"

text \<open>
  Modelled from the spec: package \<open>bitflag\<close> of this repository is not in the source
  files at hand. The spec has a bit-flag value as an integer "whose bit positions 0..N-1
  correspond one-to-one with the ordinals": \<open>Has\<close> tests the bit at the ordinal's
  position, \<open>Set\<close> ORs it in. A negative position names no bit.
\<close>

definition bitflag_Has :: "64 word \<Rightarrow> int \<Rightarrow> bool" where
  "bitflag_Has bits flag = (0 \<le> flag \<and> bit bits (nat flag))"

definition bitflag_Set :: "64 word \<Rightarrow> int \<Rightarrow> 64 word" where
  "bitflag_Set bits flag = (if 0 \<le> flag then bits OR push_bit (nat flag) 1 else bits)"

subsection \<open>Standard library: strings.Split, strings.TrimPrefix, strings.ToLower\<close>

fun Split_from :: "string \<Rightarrow> char \<Rightarrow> string \<Rightarrow> string list" where
  "Split_from [] sep cur = [cur]"
| "Split_from (c # cs) sep cur =
     (if c = sep then cur # Split_from cs sep [] else Split_from cs sep (cur @ [c]))"

definition Split :: "string \<Rightarrow> char \<Rightarrow> string list" where
  \<comment> \<open>\<open>strings.Split(s, sep)\<close> for a separator of one byte: the pieces between the
      separators, one piece (the empty string) for the empty string\<close>
  "Split s sep = Split_from s sep []"

definition TrimPrefix :: "string \<Rightarrow> string \<Rightarrow> string" where
  "TrimPrefix s prefix =
     (if take (length prefix) s = prefix then drop (length prefix) s else s)"

definition to_lower_char :: "char \<Rightarrow> char" where
  "to_lower_char c =
     (case map_of (zip ''ABCDEFGHIJKLMNOPQRSTUVWXYZ'' ''abcdefghijklmnopqrstuvwxyz'') c of
        Some d \<Rightarrow> d
      | None \<Rightarrow> c)"

definition ToLower :: "string \<Rightarrow> string" where
  \<comment> \<open>\<open>strings.ToLower\<close> on ASCII text, which Go identifiers of the enum names are\<close>
  "ToLower s = map to_lower_char s"

subsection \<open>To and from int64\<close>

definition EnumIfaceToInt64 :: "go_value \<Rightarrow> int" where
  "EnumIfaceToInt64 eval = NonPtrValue_of eval"

definition SetEnumValueFromInt64 :: "go_value \<Rightarrow> int \<Rightarrow> error option \<times> go_value" where
  "SetEnumValueFromInt64 eval ival =
     (case eval of
        Direct t v \<Rightarrow> (Some MustPassPointer, eval)
      | Pointer t v \<Rightarrow> (None, Pointer t ival))"

definition reflect_New :: "reflect_Type \<Rightarrow> go_value" where
  \<comment> \<open>\<open>reflect.New(typ)\<close>: a pointer to a new zero value\<close>
  "reflect_New typ = Pointer typ 0"

definition Elem_Interface :: "go_value \<Rightarrow> go_value" where
  \<comment> \<open>\<open>evn.Elem().Interface()\<close>: the value behind the pointer\<close>
  "Elem_Interface eval = Direct (NonPtrType_of eval) (NonPtrValue_of eval)"

definition EnumIfaceFromInt64 :: "int \<Rightarrow> reflect_Type \<Rightarrow> go_value" where
  "EnumIfaceFromInt64 ival typ =
     Elem_Interface (snd (SetEnumValueFromInt64 (reflect_New typ) ival))"

subsection \<open>To and from string\<close>

definition EnumIfaceToString :: "go_value \<Rightarrow> string" where
  "EnumIfaceToString eval =
     (case String_method (NonPtrType_of eval) of
        None \<Rightarrow> []
      | Some strer \<Rightarrow> strer (NonPtrValue_of eval))"

definition EnumInt64ToString :: "int \<Rightarrow> reflect_Type \<Rightarrow> string" where
  "EnumInt64ToString ival typ = EnumIfaceToString (EnumIfaceFromInt64 ival typ)"

definition SetEnumValueFromString :: "go_value \<Rightarrow> string \<Rightarrow> error option \<times> go_value" where
  \<comment> \<open>\<open>meth.Call(args)\<close> runs \<open>FromString\<close> on the pointer; what the method returns is
      dropped and the function returns nil\<close>
  "SetEnumValueFromString eval str =
     (case eval of
        Direct t v \<Rightarrow> (Some MustPassPointer, eval)
      | Pointer et v \<Rightarrow>
          (case FromString_method et of
             None \<Rightarrow> (Some FromStringNotFound, eval)
           | Some meth \<Rightarrow> (None, Pointer et (snd (meth str v)))))"

definition SetEnumIfaceFromString :: "go_value \<Rightarrow> string \<Rightarrow> error option \<times> go_value" where
  "SetEnumIfaceFromString eptr str = SetEnumValueFromString eptr str"

subsection \<open>Bit flags\<close>

function BitFlagsToString_loop ::
  "reflect_Type \<Rightarrow> 64 word \<Rightarrow> int \<Rightarrow> int \<Rightarrow> string \<Rightarrow> string" where
  "BitFlagsToString_loop et bflg n i str =
     (if i < n
      then BitFlagsToString_loop et bflg n (i + 1)
             (if bitflag_Has bflg i
              then (let evs = EnumInt64ToString i et
                    in if str = [] then evs else str @ ''|'' @ evs)
              else str)
      else str)"
  by pat_completeness auto
termination
  by (relation "measure (\<lambda>(et, bflg, n, i, str). nat (n - i))") auto

declare BitFlagsToString_loop.simps [simp del]

definition BitFlagsToString :: "64 word \<Rightarrow> go_value \<Rightarrow> string" where
  "BitFlagsToString bflg en =
     BitFlagsToString_loop (NonPtrType_of en) bflg (EnumIfaceToInt64 en) 0 []"

fun BitFlagsTypeFromString_loop ::
  "string list \<Rightarrow> go_value \<Rightarrow> error option \<Rightarrow> 64 word \<Rightarrow> error option \<times> 64 word" where
  "BitFlagsTypeFromString_loop [] evv err bflg = (err, bflg)"
| "BitFlagsTypeFromString_loop (flg # flgs) evv err bflg =
     (case SetEnumValueFromString evv flg of
        (None, evv') \<Rightarrow>
          BitFlagsTypeFromString_loop flgs evv' None
            (bitflag_Set bflg (EnumIfaceToInt64 evv'))
      | (Some e, evv') \<Rightarrow>
          BitFlagsTypeFromString_loop flgs evv' (Some e) bflg)"

definition BitFlagsTypeFromString ::
  "64 word \<Rightarrow> string \<Rightarrow> reflect_Type \<Rightarrow> int \<Rightarrow> error option \<times> 64 word" where
  \<comment> \<open>takes the set behind \<open>bflg\<close>, returns the error and the set behind it afterwards\<close>
  "BitFlagsTypeFromString bflg str et n =
     BitFlagsTypeFromString_loop (Split str CHR ''|'') (reflect_New et) None bflg"

definition BitFlagsFromString ::
  "64 word \<Rightarrow> string \<Rightarrow> go_value \<Rightarrow> error option \<times> 64 word" where
  "BitFlagsFromString bflg str en =
     BitFlagsTypeFromString bflg str (NonPtrType_of en) (EnumIfaceToInt64 en)"

subsection \<open>The registry\<close>

text \<open>
  The three maps of \<open>EnumRegistry\<close>. A Go map is nil until it is made: reading a nil
  map finds nothing, writing to it panics, and \<open>AddEnum\<close> makes all three when
  \<open>Enums\<close> is nil. So each map is an \<open>option\<close>, with \<open>None\<close> for nil, and the
  functions that write return a \<open>panic\<close> or their result with the registry afterwards.
  A property map handed out by \<open>Properties\<close> is the one the registry holds, so a write
  to it is a write to the registry's entry.
\<close>

type_synonym props = "string \<Rightarrow> prop_val option"

record EnumValue =
  Name :: string
  Value :: int
  Type :: "reflect_Type option"

record EnumRegistry =
  Enums :: "(string \<Rightarrow> reflect_Type option) option"
  Props :: "(string \<Rightarrow> props option) option"
  Vals :: "(string \<Rightarrow> EnumValue list option) option"

definition store_props :: "EnumRegistry \<Rightarrow> string \<Rightarrow> props \<Rightarrow> panic + EnumRegistry" where
  \<comment> \<open>\<open>tr.Props[snm] = p\<close>\<close>
  "store_props tr snm p =
     (case Props tr of
        None \<Rightarrow> Inl NilMapWrite
      | Some m \<Rightarrow> Inr (tr\<lparr>Props := Some (m(snm \<mapsto> p))\<rparr>))"

definition Properties :: "EnumRegistry \<Rightarrow> string \<Rightarrow> panic + (props \<times> EnumRegistry)" where
  "Properties tr enumName =
     (case (case Props tr of None \<Rightarrow> None | Some m \<Rightarrow> m enumName) of
        Some tp \<Rightarrow> Inr (tp, tr)
      | None \<Rightarrow>
          (case store_props tr enumName Map.empty of
             Inl e \<Rightarrow> Inl e
           | Inr tr' \<Rightarrow> Inr (Map.empty, tr')))"

definition put_prop ::
  "EnumRegistry \<Rightarrow> string \<Rightarrow> string \<Rightarrow> prop_val \<Rightarrow> panic + EnumRegistry" where
  \<comment> \<open>\<open>tp := tr.Properties(snm); tp[key] = val\<close>\<close>
  "put_prop tr snm key val =
     (case Properties tr snm of
        Inl e \<Rightarrow> Inl e
      | Inr (tp, tr') \<Rightarrow> store_props tr' snm (tp(key \<mapsto> val)))"

definition Enum :: "EnumRegistry \<Rightarrow> string \<Rightarrow> reflect_Type option" where
  "Enum tr name = (case Enums tr of None \<Rightarrow> None | Some m \<Rightarrow> m name)"

definition Prop :: "EnumRegistry \<Rightarrow> string \<Rightarrow> string \<Rightarrow> prop_val option" where
  "Prop tr enumName propKey =
     (case (case Props tr of None \<Rightarrow> None | Some m \<Rightarrow> m enumName) of
        None \<Rightarrow> None
      | Some tp \<Rightarrow> tp propKey)"

definition AltStrings :: "EnumRegistry \<Rightarrow> string \<Rightarrow> (int \<Rightarrow> string option) option" where
  "AltStrings tr enumName =
     (case Prop tr enumName ''AltStrings'' of
        Some (PAltStrings m) \<Rightarrow> Some m
      | _ \<Rightarrow> None)"

definition NVals :: "EnumRegistry \<Rightarrow> go_value \<Rightarrow> int" where
  \<comment> \<open>the name looked up is that of the enum type of \<open>eval\<close>, as for the value
      the type was registered with\<close>
  "NVals tr eval = fst (ToInt (Prop tr (ShortTypeName (NonPtrType_of eval)) ''N''))"

definition IsBitFlag :: "EnumRegistry \<Rightarrow> reflect_Type \<Rightarrow> bool" where
  "IsBitFlag tr typ = fst (ToBool (Prop tr (ShortTypeName typ) ''BitFlag''))"

definition AddEnum ::
  "EnumRegistry \<Rightarrow> go_value \<Rightarrow> bool \<Rightarrow> props option \<Rightarrow> panic + (reflect_Type \<times> EnumRegistry)" where
  "AddEnum tr en bitFlag props =
     (let tr1 = (if Enums tr = None
                 then tr\<lparr>Enums := Some Map.empty, Props := Some Map.empty, Vals := Some Map.empty\<rparr>
                 else tr);
          typ = NonPtrType_of en;
          n = EnumIfaceToInt64 en;
          snm = ShortTypeName typ;
          tr2 = tr1\<lparr>Enums := map_option (\<lambda>m. m(snm \<mapsto> typ)) (Enums tr1)\<rparr>
      in case (case props of None \<Rightarrow> Inr tr2 | Some p \<Rightarrow> store_props tr2 snm p) of
           Inl e \<Rightarrow> Inl e
         | Inr tr3 \<Rightarrow>
             (case put_prop tr3 snm ''N'' (PInt64 n) of
                Inl e \<Rightarrow> Inl e
              | Inr tr4 \<Rightarrow>
                  if bitFlag
                  then (case put_prop tr4 snm ''BitFlag'' (PBool True) of
                          Inl e \<Rightarrow> Inl e
                        | Inr tr5 \<Rightarrow> Inr (typ, tr5))
                  else Inr (typ, tr4)))"

function AddEnumAltLower_loop ::
  "reflect_Type \<Rightarrow> string \<Rightarrow> int \<Rightarrow> int \<Rightarrow> (int \<Rightarrow> string option) \<Rightarrow> (int \<Rightarrow> string option)" where
  "AddEnumAltLower_loop typ prefix n i alts =
     (if i < n
      then AddEnumAltLower_loop typ prefix n (i + 1)
             (alts(i \<mapsto> ToLower (TrimPrefix (EnumInt64ToString i typ) prefix)))
      else alts)"
  by pat_completeness auto
termination
  by (relation "measure (\<lambda>(typ, prefix, n, i, alts). nat (n - i))") auto

declare AddEnumAltLower_loop.simps [simp del]

definition AddEnumAltLower ::
  "EnumRegistry \<Rightarrow> go_value \<Rightarrow> bool \<Rightarrow> props option \<Rightarrow> string \<Rightarrow> panic + (reflect_Type \<times> EnumRegistry)" where
  "AddEnumAltLower tr en bitFlag props prefix =
     (case AddEnum tr en bitFlag props of
        Inl e \<Rightarrow> Inl e
      | Inr (typ, tr1) \<Rightarrow>
          (let n = EnumIfaceToInt64 en;
               snm = ShortTypeName typ;
               alts = AddEnumAltLower_loop typ prefix n 0 Map.empty
           in case put_prop tr1 snm ''AltStrings'' (PAltStrings alts) of
                Inl e \<Rightarrow> Inl e
              | Inr tr2 \<Rightarrow> Inr (typ, tr2)))"

subsection \<open>The EnumValue catalog\<close>

function Values_loop ::
  "reflect_Type option \<Rightarrow> bool \<Rightarrow> (int \<Rightarrow> string option) option \<Rightarrow> int \<Rightarrow> int \<Rightarrow> EnumValue list
     \<Rightarrow> panic + EnumValue list" where
  "Values_loop et alt alts n i vals =
     (if i < n
      then (case et of
              None \<Rightarrow> Inl ReflectNewNil
            | Some t \<Rightarrow>
                (let str = EnumInt64ToString i t;
                     str' = (case alts of
                               None \<Rightarrow> str
                             | Some a \<Rightarrow> if alt then (case a i of None \<Rightarrow> [] | Some s \<Rightarrow> s) else str)
                 in Values_loop et alt alts n (i + 1)
                      (vals[nat i := \<lparr>Name = str', Value = i, Type = et\<rparr>])))
      else Inr vals)"
  by pat_completeness auto
termination
  by (relation "measure (\<lambda>(et, alt, alts, n, i, vals). nat (n - i))") auto

declare Values_loop.simps [simp del]

definition Values ::
  "EnumRegistry \<Rightarrow> string \<Rightarrow> bool \<Rightarrow> panic + (EnumValue list \<times> EnumRegistry)" where
  "Values tr enumName alt =
     (case (case Vals tr of None \<Rightarrow> None | Some vm \<Rightarrow> vm enumName) of
        Some vals \<Rightarrow> Inr (vals, tr)
      | None \<Rightarrow>
          (let alts = AltStrings tr enumName;
               et = (case Enums tr of None \<Rightarrow> None | Some em \<Rightarrow> em enumName)
           in case Prop tr enumName ''N'' of
                Some (PInt64 n) \<Rightarrow>
                  if n < 0 then Inl MakeSliceLen
                  else (case Values_loop et alt alts n 0
                               (replicate (nat n) \<lparr>Name = [], Value = 0, Type = None\<rparr>) of
                          Inl e \<Rightarrow> Inl e
                        | Inr vals \<Rightarrow>
                            (case Vals tr of
                               None \<Rightarrow> Inl NilMapWrite
                             | Some vm \<Rightarrow> Inr (vals, tr\<lparr>Vals := Some (vm(enumName \<mapsto> vals))\<rparr>)))
              | _ \<Rightarrow> Inl TypeAssertion))"

subsection \<open>The types the claims name\<close>

definition Flags_type :: reflect_Type where
  "Flags_type =
     \<lparr> ShortTypeName = ''ki.Flags'',
       String_method = Some Flags_String,
       FromString_method = Some Flags_FromString \<rparr>"

text \<open>
  Modelled from the spec: the generated stringer file of \<open>TestFlags\<close> (enums.go:650-659,
  \<open>go:generate stringer -type=TestFlags\<close>) is not in the source files at hand. Its
  methods are the stringer methods above over the tables the generator writes for the four
  constants of enums.go:652-657; the spec names the first three, \<open>TestFlagsNil\<close>,
  \<open>TestFlag1\<close>, \<open>TestFlag2\<close>, as the canonical names of the type.
\<close>

definition TestFlags_stringer :: stringer where
  "TestFlags_stringer =
     \<lparr> type_name = ''TestFlags'',
       name_tab = ''TestFlagsNilTestFlag1TestFlag2TestFlagsN'',
       index_tab = [0, 12, 21, 30, 40] \<rparr>"

definition TestFlags_type :: reflect_Type where
  "TestFlags_type =
     \<lparr> ShortTypeName = ''kit.TestFlags'',
       String_method = Some (String_of TestFlags_stringer),
       FromString_method = Some (FromString_of TestFlags_stringer) \<rparr>"

definition TestFlagsN :: go_value where
  "TestFlagsN = Direct TestFlags_type 3"

definition zero_EnumRegistry :: EnumRegistry where
  \<comment> \<open>\<open>var Enums EnumRegistry\<close>: the zero value, all three maps nil\<close>
  "zero_EnumRegistry = \<lparr> Enums = None, Props = None, Vals = None \<rparr>"

definition KiT_TestFlags :: "panic + (reflect_Type \<times> EnumRegistry)" where
  \<comment> \<open>enums.go:661, on the registry as declared\<close>
  "KiT_TestFlags = AddEnumAltLower zero_EnumRegistry TestFlagsN False None ''Test''"

text \<open>
  Modelled from the spec: the example bit-flag type of the spec's testable property 5,
  "a type with ordinals \<open>{0:"Nil",1:"FlagA",2:"FlagB"}\<close>, \<open>N=3\<close>", is no type of the
  source files; its methods are the stringer methods above over these three names.
\<close>

definition Example_stringer :: stringer where
  "Example_stringer =
     \<lparr> type_name = ''Example'',
       name_tab = ''NilFlagAFlagB'',
       index_tab = [0, 3, 8, 13] \<rparr>"

definition Example_type :: reflect_Type where
  "Example_type =
     \<lparr> ShortTypeName = ''kit.Example'',
       String_method = Some (String_of Example_stringer),
       FromString_method = Some (FromString_of Example_stringer) \<rparr>"

definition ExampleN :: go_value where
  "ExampleN = Direct Example_type 3"

text \<open>
  The registry after the example type has been registered as a bit-flag type with count 3,
  and after it has been registered again with count 2, not as a bit-flag type and with nil
  properties.
\<close>

definition Example_registered_once :: EnumRegistry where
  "Example_registered_once =
     \<lparr> Enums = Some [''kit.Example'' \<mapsto> Example_type],
       Props = Some [''kit.Example'' \<mapsto> [''N'' \<mapsto> PInt64 3, ''BitFlag'' \<mapsto> PBool True]],
       Vals = Some Map.empty \<rparr>"

definition Example_registered_twice :: EnumRegistry where
  "Example_registered_twice =
     \<lparr> Enums = Some [''kit.Example'' \<mapsto> Example_type],
       Props = Some [''kit.Example'' \<mapsto> [''N'' \<mapsto> PInt64 2, ''BitFlag'' \<mapsto> PBool True]],
       Vals = Some Map.empty \<rparr>"

subsection \<open>What the encoding of a bit-flag set is to be\<close>

text \<open>
  The spec's words for the encoding: the names of the set bits among the ordinals
  \<open>0..N-1\<close>, in ascending order, joined with \<open>|\<close>. \<open>set_ordinals\<close> lists these
  ordinals and \<open>join_bar\<close> joins names; \<open>append_name\<close> is one round of the loop of
  \<open>BitFlagsToString\<close> for an ordinal whose bit is set.
\<close>

fun join_bar :: "string list \<Rightarrow> string" where
  "join_bar [] = []"
| "join_bar [x] = x"
| "join_bar (x # y # ys) = x @ ''|'' @ join_bar (y # ys)"

definition set_ordinals :: "64 word \<Rightarrow> int \<Rightarrow> int list" where
  "set_ordinals bflg n = filter (bitflag_Has bflg) [0..n - 1]"

definition append_name :: "reflect_Type \<Rightarrow> string \<Rightarrow> int \<Rightarrow> string" where
  "append_name et str k =
     (let evs = EnumInt64ToString k et in if str = [] then evs else str @ ''|'' @ evs)"

subsection \<open>What the catalog of a type holds\<close>

text \<open>
  \<open>catalog_entry\<close> is the entry that one round of the loop of \<open>Values\<close> writes for
  the ordinal \<open>i\<close> of the type \<open>t\<close>. \<open>TestFlags_registered\<close> is the registry after
  enums.go:661 has run on the registry as declared, and the two catalogs are the lists of
  \<open>TestFlags\<close> under its canonical and under its alternate names.
\<close>

definition catalog_entry ::
  "reflect_Type \<Rightarrow> bool \<Rightarrow> (int \<Rightarrow> string option) option \<Rightarrow> int \<Rightarrow> EnumValue" where
  "catalog_entry t alt alts i =
     (let str = EnumInt64ToString i t;
          str' = (case alts of
                    None \<Rightarrow> str
                  | Some a \<Rightarrow> if alt then (case a i of None \<Rightarrow> [] | Some s \<Rightarrow> s) else str)
      in \<lparr>Name = str', Value = i, Type = Some t\<rparr>)"

definition TestFlags_registered :: EnumRegistry where
  "TestFlags_registered =
     \<lparr> Enums = Some [''kit.TestFlags'' \<mapsto> TestFlags_type],
       Props = Some [''kit.TestFlags'' \<mapsto>
                 [''N'' \<mapsto> PInt64 3,
                  ''AltStrings'' \<mapsto> PAltStrings [0 \<mapsto> ''flagsnil'', 1 \<mapsto> ''flag1'', 2 \<mapsto> ''flag2'']]],
       Vals = Some Map.empty \<rparr>"

definition TestFlags_canonical_catalog :: "EnumValue list" where
  "TestFlags_canonical_catalog =
     [\<lparr>Name = ''TestFlagsNil'', Value = 0, Type = Some TestFlags_type\<rparr>,
      \<lparr>Name = ''TestFlag1'', Value = 1, Type = Some TestFlags_type\<rparr>,
      \<lparr>Name = ''TestFlag2'', Value = 2, Type = Some TestFlags_type\<rparr>]"

definition TestFlags_alternate_catalog :: "EnumValue list" where
  "TestFlags_alternate_catalog =
     [\<lparr>Name = ''flagsnil'', Value = 0, Type = Some TestFlags_type\<rparr>,
      \<lparr>Name = ''flag1'', Value = 1, Type = Some TestFlags_type\<rparr>,
      \<lparr>Name = ''flag2'', Value = 2, Type = Some TestFlags_type\<rparr>]"

section \<open>Properties of the stringer code\<close>

lemma FromString_loop_stop:
  "\<not> j < length (index_tab st) - 1 \<Longrightarrow> FromString_loop st s j = None"
  by (subst FromString_loop.simps) simp

lemma FromString_loop_hit:
  "j < length (index_tab st) - 1 \<Longrightarrow> s = name_at st j \<Longrightarrow> FromString_loop st s j = Some j"
  by (subst FromString_loop.simps) simp

lemma FromString_loop_miss:
  "j < length (index_tab st) - 1 \<Longrightarrow> s \<noteq> name_at st j \<Longrightarrow>
     FromString_loop st s j = FromString_loop st s (j + 1)"
  by (subst FromString_loop.simps) simp

lemma FromString_loop_None:
  "FromString_loop st s j = None \<longleftrightarrow> (\<forall>k. j \<le> k \<and> k < length (index_tab st) - 1 \<longrightarrow> s \<noteq> name_at st k)"
proof (induction st s j rule: FromString_loop.induct)
  case (1 st s j)
  show ?case
  proof (cases "j < length (index_tab st) - 1")
    case False
    then show ?thesis using FromString_loop_stop [OF False, of s] by auto
  next
    case inr: True
    show ?thesis
    proof (cases "s = name_at st j")
      case True
      have "FromString_loop st s j = Some j"
        by (rule FromString_loop_hit [OF inr True])
      moreover have "\<not> (\<forall>k. j \<le> k \<and> k < length (index_tab st) - 1 \<longrightarrow> s \<noteq> name_at st k)"
        using inr True by blast
      ultimately show ?thesis by simp
    next
      case False
      have step: "FromString_loop st s j = FromString_loop st s (j + 1)"
        by (rule FromString_loop_miss [OF inr False])
      have "(\<forall>k. j \<le> k \<and> k < length (index_tab st) - 1 \<longrightarrow> s \<noteq> name_at st k)
          \<longleftrightarrow> (\<forall>k. j + 1 \<le> k \<and> k < length (index_tab st) - 1 \<longrightarrow> s \<noteq> name_at st k)"
      proof
        assume "\<forall>k. j \<le> k \<and> k < length (index_tab st) - 1 \<longrightarrow> s \<noteq> name_at st k"
        then show "\<forall>k. j + 1 \<le> k \<and> k < length (index_tab st) - 1 \<longrightarrow> s \<noteq> name_at st k"
          by simp
      next
        assume r: "\<forall>k. j + 1 \<le> k \<and> k < length (index_tab st) - 1 \<longrightarrow> s \<noteq> name_at st k"
        show "\<forall>k. j \<le> k \<and> k < length (index_tab st) - 1 \<longrightarrow> s \<noteq> name_at st k"
        proof (intro allI impI)
          fix k assume k: "j \<le> k \<and> k < length (index_tab st) - 1"
          show "s \<noteq> name_at st k"
          proof (cases "k = j")
            case True
            with False show ?thesis by simp
          next
            case False
            with k have "j + 1 \<le> k" by simp
            with r k show ?thesis by blast
          qed
        qed
      qed
      with step "1.IH" [OF inr False] show ?thesis by simp
    qed
  qed
qed

lemma FromString_loop_Some:
  "FromString_loop st s j = Some k \<Longrightarrow>
     j \<le> k \<and> k < length (index_tab st) - 1 \<and> s = name_at st k \<and> (\<forall>m. j \<le> m \<and> m < k \<longrightarrow> s \<noteq> name_at st m)"
proof (induction st s j rule: FromString_loop.induct)
  case (1 st s j)
  show ?case
  proof (cases "j < length (index_tab st) - 1")
    case False
    with "1.prems" FromString_loop_stop [OF False, of s] show ?thesis by simp
  next
    case inr: True
    show ?thesis
    proof (cases "s = name_at st j")
      case True
      have "FromString_loop st s j = Some j"
        by (rule FromString_loop_hit [OF inr True])
      with "1.prems" have "k = j" by simp
      with inr True show ?thesis by auto
    next
      case False
      have "FromString_loop st s j = FromString_loop st s (j + 1)"
        by (rule FromString_loop_miss [OF inr False])
      with "1.prems" have "FromString_loop st s (j + 1) = Some k" by simp
      from "1.IH" [OF inr False this]
      have ih: "j + 1 \<le> k" "k < length (index_tab st) - 1" "s = name_at st k"
        "\<forall>m. j + 1 \<le> m \<and> m < k \<longrightarrow> s \<noteq> name_at st m" by auto
      have "\<forall>m. j \<le> m \<and> m < k \<longrightarrow> s \<noteq> name_at st m"
      proof (intro allI impI)
        fix m assume m: "j \<le> m \<and> m < k"
        show "s \<noteq> name_at st m"
        proof (cases "m = j")
          case True
          with False show ?thesis by simp
        next
          case False
          with m have "j + 1 \<le> m" by simp
          with ih(4) m show ?thesis by blast
        qed
      qed
      with ih show ?thesis by simp
    qed
  qed
qed

lemma FromString_loop_first:
  assumes "i < length (index_tab st) - 1"
    and "\<forall>m. m < i \<longrightarrow> name_at st m \<noteq> name_at st i"
  shows "FromString_loop st (name_at st i) 0 = Some i"
proof (cases "FromString_loop st (name_at st i) 0")
  case None
  with assms(1) show ?thesis by (auto simp: FromString_loop_None)
next
  case (Some k)
  from FromString_loop_Some [OF this]
  have k: "k < length (index_tab st) - 1" "name_at st i = name_at st k"
    "\<forall>m. m < k \<longrightarrow> name_at st i \<noteq> name_at st m" by auto
  have "k = i"
  proof (rule ccontr)
    assume "k \<noteq> i"
    then consider "k < i" | "i < k" by linarith
    then show False using k assms(2) by cases auto
  qed
  with Some show ?thesis by simp
qed

lemma Flags_names:
  "stringer_names Flags_stringer =
     [''IsField'', ''HasKiFields'', ''HasNoKiFields'', ''Updating'', ''OnlySelfUpdate'',
      ''NodeAdded'', ''NodeCopied'', ''NodeMoved'', ''NodeDeleted'', ''NodeDestroyed'',
      ''ChildAdded'', ''ChildMoved'', ''ChildDeleted'', ''ChildrenDeleted'',
      ''FieldUpdated'', ''PropUpdated'', ''FlagsN'']"
  by (simp add: stringer_names_def Flags_stringer_def name_at_def slice_def upt_rec)

lemma length_stringer_names: "length (stringer_names st) = length (index_tab st) - 1"
  by (simp add: stringer_names_def)

lemma nth_stringer_names:
  "j < length (index_tab st) - 1 \<Longrightarrow> stringer_names st ! j = name_at st j"
  by (simp add: stringer_names_def)

lemma FromString_of_unknown:
  assumes "s \<notin> set (stringer_names st)"
  shows "FromString_of st s r = (Some (NotValidOption s (type_name st)), r)"
proof -
  have "\<forall>k. 0 \<le> k \<and> k < length (index_tab st) - 1 \<longrightarrow> s \<noteq> name_at st k"
  proof (intro allI impI)
    fix k assume "0 \<le> k \<and> k < length (index_tab st) - 1"
    then have "name_at st k \<in> set (stringer_names st)"
      by (simp add: stringer_names_def)
    with assms show "s \<noteq> name_at st k" by blast
  qed
  then have "FromString_loop st s 0 = None"
    by (simp only: FromString_loop_None)
  then show ?thesis by (simp add: FromString_of_def)
qed

lemma FromString_of_name:
  assumes "distinct (stringer_names st)" and "j < length (stringer_names st)"
  shows "FromString_of st (stringer_names st ! j) r = (None, int j)"
proof -
  from assms(2) have j: "j < length (index_tab st) - 1" by (simp add: length_stringer_names)
  have "\<forall>m. m < j \<longrightarrow> name_at st m \<noteq> name_at st j"
  proof (intro allI impI)
    fix m assume m: "m < j"
    with j have "stringer_names st ! m \<noteq> stringer_names st ! j"
      using assms(1) by (simp add: nth_eq_iff_index_eq length_stringer_names)
    with m j show "name_at st m \<noteq> name_at st j"
      by (simp add: nth_stringer_names)
  qed
  from FromString_loop_first [OF j this] show ?thesis
    by (simp add: FromString_of_def nth_stringer_names [OF j])
qed

lemma String_of_in_range:
  "0 \<le> i \<Longrightarrow> i < int (length (stringer_names st)) \<Longrightarrow> String_of st i = stringer_names st ! nat i"
  by (auto simp: String_of_def nth_stringer_names length_stringer_names)

lemma String_of_fallback:
  "i < 0 \<or> int (length (stringer_names st)) \<le> i \<Longrightarrow>
     String_of st i = type_name st @ ''('' @ FormatInt i @ '')''"
  by (auto simp: String_of_def length_stringer_names)

lemma Flags_names_distinct: "distinct (stringer_names Flags_stringer)"
  by (simp add: Flags_names)

lemma Flags_names_length: "length (stringer_names Flags_stringer) = 17"
  by (simp add: Flags_names)

lemma Flags_names_no_paren: "\<forall>n \<in> set (stringer_names Flags_stringer). CHR ''('' \<notin> set n"
  by (simp add: Flags_names)

text \<open>
  Claim C5. Parsing the canonical stringification of an ordinal gives the ordinal back.
  For any type whose generated tables hold pairwise different names, and any ordinal
  \<open>i\<close> in \<open>[0, N)\<close>, \<open>FromString\<close> applied to \<open>String i\<close> sets the receiver to
  \<open>i\<close> and returns nil, whatever the receiver held before; in particular for \<open>Flags\<close>
  (17 names) and every \<open>k\<close> in \<open>[0, 17)\<close>.
\<close>

theorem stringer_parse_stringify:
  "(distinct (stringer_names st) \<and> 0 \<le> i \<and> i < int (length (stringer_names st))
      \<longrightarrow> FromString_of st (String_of st i) r = (None, i))
   \<and> (0 \<le> k \<and> k < 17 \<longrightarrow> Flags_FromString (Flags_String k) r = (None, k))"
proof -
  have gen: "FromString_of st' (String_of st' i') r = (None, i')"
    if "distinct (stringer_names st')" "0 \<le> i'" "i' < int (length (stringer_names st'))"
    for st' i'
  proof -
    from that have "nat i' < length (stringer_names st')" by simp
    from FromString_of_name [OF that(1) this, of r] String_of_in_range [OF that(2,3)] that(2)
    show ?thesis by simp
  qed
  have "Flags_FromString (Flags_String k) r = (None, k)" if "0 \<le> k" "k < 17"
    unfolding Flags_FromString_def Flags_String_def
    using gen [OF Flags_names_distinct that(1)] that(2) by (simp add: Flags_names_length)
  with gen show ?thesis by blast
qed

theorem stringer_parse_stringify_witness:
  "(distinct (stringer_names Flags_stringer) \<and> (0::int) \<le> 3 \<and> 3 < int (length (stringer_names Flags_stringer)))
   \<and> FromString_of Flags_stringer (String_of Flags_stringer 3) 0 = (None, 3)
   \<and> ((0::int) \<le> 16 \<and> (16::int) < 17) \<and> Flags_FromString (Flags_String 16) 0 = (None, 16)"
  using stringer_parse_stringify [of Flags_stringer 3 0 16]
  by (simp add: Flags_names)

text \<open>
  Claim C10. \<open>(*Flags).FromString\<close> is atomic. The tables of \<open>Flags\<close> hold the 17
  names listed; for a string that is none of them the method returns the "not a valid
  option" error and the receiver keeps its value; for the name of ordinal \<open>j\<close> it sets
  the receiver to \<open>j\<close> and returns nil.
\<close>

theorem Flags_FromString_atomic:
  "stringer_names Flags_stringer =
     [''IsField'', ''HasKiFields'', ''HasNoKiFields'', ''Updating'', ''OnlySelfUpdate'',
      ''NodeAdded'', ''NodeCopied'', ''NodeMoved'', ''NodeDeleted'', ''NodeDestroyed'',
      ''ChildAdded'', ''ChildMoved'', ''ChildDeleted'', ''ChildrenDeleted'',
      ''FieldUpdated'', ''PropUpdated'', ''FlagsN'']
   \<and> (s \<notin> set (stringer_names Flags_stringer)
        \<longrightarrow> Flags_FromString s r = (Some (NotValidOption s ''Flags''), r))
   \<and> (\<forall>j<17. s = stringer_names Flags_stringer ! j \<longrightarrow> Flags_FromString s r = (None, int j))"
proof (intro conjI impI allI)
  show "stringer_names Flags_stringer =
     [''IsField'', ''HasKiFields'', ''HasNoKiFields'', ''Updating'', ''OnlySelfUpdate'',
      ''NodeAdded'', ''NodeCopied'', ''NodeMoved'', ''NodeDeleted'', ''NodeDestroyed'',
      ''ChildAdded'', ''ChildMoved'', ''ChildDeleted'', ''ChildrenDeleted'',
      ''FieldUpdated'', ''PropUpdated'', ''FlagsN'']"
    by (rule Flags_names)
next
  assume "s \<notin> set (stringer_names Flags_stringer)"
  from FromString_of_unknown [OF this, of r]
  show "Flags_FromString s r = (Some (NotValidOption s ''Flags''), r)"
    by (simp add: Flags_FromString_def Flags_stringer_def)
next
  fix j :: nat assume "j < 17" and s: "s = stringer_names Flags_stringer ! j"
  then have "j < length (stringer_names Flags_stringer)"
    by (simp add: Flags_names_length)
  from FromString_of_name [OF Flags_names_distinct this, of r] s
  show "Flags_FromString s r = (None, int j)"
    by (simp add: Flags_FromString_def)
qed

theorem Flags_FromString_atomic_witness:
  "''Bogus'' \<notin> set (stringer_names Flags_stringer)
   \<and> Flags_FromString ''Bogus'' 5 = (Some (NotValidOption ''Bogus'' ''Flags''), 5)
   \<and> (3::nat) < 17 \<and> ''Updating'' = stringer_names Flags_stringer ! 3
   \<and> Flags_FromString ''Updating'' 5 = (None, 3)"
proof -
  have a: "''Bogus'' \<notin> set (stringer_names Flags_stringer)" by (simp add: Flags_names)
  have b: "''Updating'' = stringer_names Flags_stringer ! 3" by (simp add: Flags_names)
  from Flags_FromString_atomic [of "''Bogus''" 5] a
  have c: "Flags_FromString ''Bogus'' 5 = (Some (NotValidOption ''Bogus'' ''Flags''), 5)" by blast
  from Flags_FromString_atomic [of "''Updating''" 5] b
  have d: "Flags_FromString ''Updating'' 5 = (None, int 3)" by simp
  from a b c d show ?thesis by simp
qed

text \<open>
  Claim C8. Out of range, \<open>Flags.String\<close> gives the fallback form: \<open>Flags(17)\<close> for
  17, and \<open>Flags(<i>)\<close> with the decimal form of \<open>i\<close> for every \<open>i < 0\<close> or
  \<open>i \<ge> 17\<close>. \<open>FromString\<close> accepts no fallback string: it returns the "not a valid
  option" error and leaves the receiver as it was.
\<close>

theorem Flags_fallback_not_parsed:
  "Flags_String 17 = ''Flags(17)''
   \<and> Flags_FromString ''Flags(17)'' r = (Some (NotValidOption ''Flags(17)'' ''Flags''), r)
   \<and> (i < 0 \<or> 17 \<le> i \<longrightarrow>
        Flags_String i = ''Flags('' @ FormatInt i @ '')''
        \<and> Flags_FromString (Flags_String i) r = (Some (NotValidOption (Flags_String i) ''Flags''), r))"
proof -
  have fb: "Flags_String i' = ''Flags('' @ FormatInt i' @ '')''" if "i' < 0 \<or> 17 \<le> i'" for i'
    using String_of_fallback [of i' Flags_stringer] that
    by (simp add: Flags_String_def Flags_names_length) (simp add: Flags_stringer_def)
  have np: "Flags_FromString (Flags_String i') r = (Some (NotValidOption (Flags_String i') ''Flags''), r)"
    if "i' < 0 \<or> 17 \<le> i'" for i'
  proof -
    have "CHR ''('' \<in> set (Flags_String i')" by (simp add: fb [OF that])
    with Flags_names_no_paren have "Flags_String i' \<notin> set (stringer_names Flags_stringer)"
      by blast
    from FromString_of_unknown [OF this, of r] show ?thesis
      by (simp add: Flags_FromString_def Flags_stringer_def)
  qed
  have s17: "Flags_String 17 = ''Flags(17)''"
    using fb [of 17] by (simp add: FormatInt_def FormatUint.simps digit_char_def)
  from np [of 17] s17 have "Flags_FromString ''Flags(17)'' r = (Some (NotValidOption ''Flags(17)'' ''Flags''), r)"
    by simp
  with s17 fb np show ?thesis by blast
qed

theorem Flags_fallback_not_parsed_witness:
  "((-3::int) < 0 \<or> (17::int) \<le> -3)
   \<and> Flags_String (-3) = ''Flags(-3)''
   \<and> Flags_FromString ''Flags(-3)'' 4 = (Some (NotValidOption ''Flags(-3)'' ''Flags''), 4)"
proof -
  have h: "(-3::int) < 0 \<or> (17::int) \<le> -3" by simp
  from Flags_fallback_not_parsed [of 4 "-3"] h
  have "Flags_String (-3) = ''Flags('' @ FormatInt (-3) @ '')''"
    and "Flags_FromString (Flags_String (-3)) 4 = (Some (NotValidOption (Flags_String (-3)) ''Flags''), 4)"
    by blast+
  then show ?thesis
    by (simp add: FormatInt_def FormatUint.simps digit_char_def)
qed

section \<open>Conversions from strings and the bit-flag codec\<close>

lemmas stringer_eval = name_at_def slice_def FromString_of_def FromString_loop.simps
  String_of_def

lemma Example_FromString_FlagA: "FromString_of Example_stringer ''FlagA'' v = (None, 1)"
  by (simp add: Example_stringer_def stringer_eval)

lemma Example_FromString_Bogus:
  "FromString_of Example_stringer ''Bogus'' v = (Some (NotValidOption ''Bogus'' ''Example''), v)"
  by (simp add: Example_stringer_def stringer_eval)

lemma Example_FromString_empty:
  "FromString_of Example_stringer [] v = (Some (NotValidOption [] ''Example''), v)"
  by (simp add: Example_stringer_def stringer_eval)

lemma Split_FlagA_Bogus: "Split ''FlagA|Bogus'' CHR ''|'' = [''FlagA'', ''Bogus'']"
  by (simp add: Split_def)

text \<open>
  Claim C2 as stated: decoding \<open>FlagA|Bogus\<close> for the example type returns an
  UnknownName error and leaves the set behind \<open>bflg\<close> unchanged. On the code, from the
  empty set, the decode returns nil and the set holds the bit of \<open>FlagA\<close>.
\<close>

theorem BitFlagsTypeFromString_partial_counterexample:
  "BitFlagsTypeFromString 0 ''FlagA|Bogus'' Example_type 3 = (None, 2)"
  by (simp add: BitFlagsTypeFromString_def Split_FlagA_Bogus reflect_New_def
      SetEnumValueFromString_def Example_type_def Example_FromString_FlagA
      Example_FromString_Bogus EnumIfaceToInt64_def bitflag_Set_def)

text \<open>
  Claim C2, amended. Decoding \<open>FlagA|Bogus\<close> for the example type applies the bit of
  \<open>FlagA\<close>, the segment that parses, and no other: whatever set \<open>b\<close> is behind
  \<open>bflg\<close> before, the set afterwards is \<open>b OR 0b010\<close>. The bits of the segments
  parsed before a failing segment stay applied; nothing is rolled back.
\<close>

theorem BitFlagsTypeFromString_partial:
  "snd (BitFlagsTypeFromString b ''FlagA|Bogus'' Example_type 3) = b OR 2"
  by (simp add: BitFlagsTypeFromString_def Split_FlagA_Bogus reflect_New_def
      SetEnumValueFromString_def Example_type_def Example_FromString_FlagA
      Example_FromString_Bogus EnumIfaceToInt64_def bitflag_Set_def or.assoc)

text \<open>
  Claim C1: for a string that matches no canonical name, the registry-level conversion
  \<open>SetEnumValueFromString\<close> / \<open>SetEnumIfaceFromString\<close> returns a non-nil error.
  The code at \<open>Flags\<close> and the string \<open>Bogus\<close>: the type's own \<open>FromString\<close>
  returns the "not a valid option" error, and both registry-level functions, which call
  it and drop what it returns (enums.go:360-362), return nil.
\<close>

theorem SetEnumValueFromString_drops_error:
  "Flags_FromString ''Bogus'' 0 = (Some (NotValidOption ''Bogus'' ''Flags''), 0)
   \<and> SetEnumValueFromString (Pointer Flags_type 0) ''Bogus'' = (None, Pointer Flags_type 0)
   \<and> SetEnumIfaceFromString (Pointer Flags_type 0) ''Bogus'' = (None, Pointer Flags_type 0)"
proof -
  have "''Bogus'' \<notin> set (stringer_names Flags_stringer)" by (simp add: Flags_names)
  from FromString_of_unknown [OF this, of 0]
  have "Flags_FromString ''Bogus'' 0 = (Some (NotValidOption ''Bogus'' ''Flags''), 0)"
    by (simp add: Flags_FromString_def Flags_stringer_def)
  then show ?thesis
    by (simp add: SetEnumIfaceFromString_def SetEnumValueFromString_def Flags_type_def)
qed

lemma BitFlagsToString_zero: "BitFlagsToString 0 ExampleN = []"
  by (simp add: BitFlagsToString_def ExampleN_def EnumIfaceToInt64_def
      BitFlagsToString_loop.simps bitflag_Has_def)

text \<open>
  Claim C4: decoding the encoding of the bit pattern of a subset \<open>S\<close> of the ordinals
  gives the bit pattern of \<open>S\<close> back, the empty set included. The code at the empty set
  of the example type: the encoding is the empty string, and decoding it from the empty
  set returns nil with bit 0 set, since the failed parse of the one empty segment is not
  reported by \<open>SetEnumValueFromString\<close> and the zero of the fresh value is taken for a
  parsed ordinal.
\<close>

theorem BitFlags_roundtrip_empty_set:
  "BitFlagsToString 0 ExampleN = []
   \<and> BitFlagsTypeFromString 0 (BitFlagsToString 0 ExampleN) Example_type 3 = (None, 1)"
  by (simp add: BitFlagsToString_zero BitFlagsTypeFromString_def Split_def reflect_New_def
      SetEnumValueFromString_def Example_type_def Example_FromString_empty
      EnumIfaceToInt64_def bitflag_Set_def)

section \<open>Registration\<close>

lemma store_props_Inr:
  assumes "store_props tr snm p = Inr tr'"
  shows "Prop tr' snm key = p key" and "Enums tr' = Enums tr" and "Vals tr' = Vals tr"
    and "nm \<noteq> snm \<Longrightarrow> Prop tr' nm key = Prop tr nm key"
  using assms by (auto simp: store_props_def Prop_def split: option.splits)

lemma put_prop_Inr:
  assumes "put_prop tr snm k v = Inr tr'"
  shows "Prop tr' snm key = (if key = k then Some v else Prop tr snm key)"
    and "Enums tr' = Enums tr" and "Vals tr' = Vals tr"
  using assms
  by (auto simp: put_prop_def Properties_def store_props_def Prop_def
      split: option.splits sum.splits if_splits)

lemma AddEnum_Inr:
  assumes "AddEnum tr en b p = Inr (t, tr')"
  shows "t = NonPtrType_of en"
    and "Prop tr' (ShortTypeName (NonPtrType_of en)) key =
           (if key = ''N'' then Some (PInt64 (EnumIfaceToInt64 en))
            else if key = ''BitFlag'' \<and> b then Some (PBool True)
            else (case p of
                    Some q \<Rightarrow> q key
                  | None \<Rightarrow> if Enums tr = None then None
                            else Prop tr (ShortTypeName (NonPtrType_of en)) key))"
    and "Enums tr' \<noteq> None"
proof -
  define snm where "snm = ShortTypeName (NonPtrType_of en)"
  define tr1 where "tr1 = (if Enums tr = None
      then tr\<lparr>Enums := Some Map.empty, Props := Some Map.empty, Vals := Some Map.empty\<rparr>
      else tr)"
  define tr2 where "tr2 = tr1\<lparr>Enums := map_option (\<lambda>m. m(snm \<mapsto> NonPtrType_of en)) (Enums tr1)\<rparr>"
  have main: "(case (case p of None \<Rightarrow> Inr tr2 | Some q \<Rightarrow> store_props tr2 snm q) of
           Inl e \<Rightarrow> Inl e
         | Inr tr3 \<Rightarrow>
             (case put_prop tr3 snm ''N'' (PInt64 (EnumIfaceToInt64 en)) of
                Inl e \<Rightarrow> Inl e
              | Inr tr4 \<Rightarrow>
                  if b
                  then (case put_prop tr4 snm ''BitFlag'' (PBool True) of
                          Inl e \<Rightarrow> Inl e
                        | Inr tr5 \<Rightarrow> Inr (NonPtrType_of en, tr5))
                  else Inr (NonPtrType_of en, tr4))) = Inr (t, tr')"
    using assms unfolding AddEnum_def Let_def tr2_def tr1_def snm_def .
  then obtain tr3 where
    s3: "(case p of None \<Rightarrow> Inr tr2 | Some q \<Rightarrow> store_props tr2 snm q) = Inr tr3"
    and r3: "(case put_prop tr3 snm ''N'' (PInt64 (EnumIfaceToInt64 en)) of
                Inl e \<Rightarrow> Inl e
              | Inr tr4 \<Rightarrow>
                  if b
                  then (case put_prop tr4 snm ''BitFlag'' (PBool True) of
                          Inl e \<Rightarrow> Inl e
                        | Inr tr5 \<Rightarrow> Inr (NonPtrType_of en, tr5))
                  else Inr (NonPtrType_of en, tr4)) = Inr (t, tr')"
    by (cases "case p of None \<Rightarrow> Inr tr2 | Some q \<Rightarrow> store_props tr2 snm q") simp_all
  from r3 obtain tr4 where
    s4: "put_prop tr3 snm ''N'' (PInt64 (EnumIfaceToInt64 en)) = Inr tr4"
    and r4: "(if b
                  then (case put_prop tr4 snm ''BitFlag'' (PBool True) of
                          Inl e \<Rightarrow> Inl e
                        | Inr tr5 \<Rightarrow> Inr (NonPtrType_of en, tr5))
                  else Inr (NonPtrType_of en, tr4)) = Inr (t, tr')"
    by (cases "put_prop tr3 snm ''N'' (PInt64 (EnumIfaceToInt64 en))") simp_all
  from r4 have t: "t = NonPtrType_of en"
    and s5: "if b then put_prop tr4 snm ''BitFlag'' (PBool True) = Inr tr' else tr' = tr4"
    by (auto split: if_splits sum.splits)
  show "t = NonPtrType_of en" by (rule t)
  have p1: "Prop tr1 snm key = (if Enums tr = None then None else Prop tr snm key)"
    by (simp add: tr1_def Prop_def)
  have p2: "Prop tr2 snm key = Prop tr1 snm key"
    by (simp add: tr2_def Prop_def)
  have p3: "Prop tr3 snm key = (case p of Some q \<Rightarrow> q key | None \<Rightarrow> Prop tr2 snm key)"
  proof (cases p)
    case None
    with s3 show ?thesis by simp
  next
    case (Some q)
    with s3 have "store_props tr2 snm q = Inr tr3" by simp
    from store_props_Inr(1) [OF this] Some show ?thesis by simp
  qed
  have p4: "Prop tr4 snm key = (if key = ''N'' then Some (PInt64 (EnumIfaceToInt64 en)) else Prop tr3 snm key)"
    using put_prop_Inr(1) [OF s4] by simp
  have p5: "Prop tr' snm key = (if key = ''BitFlag'' \<and> b then Some (PBool True) else Prop tr4 snm key)"
  proof (cases b)
    case True
    with s5 have "put_prop tr4 snm ''BitFlag'' (PBool True) = Inr tr'" by simp
    from put_prop_Inr(1) [OF this] True show ?thesis by simp
  next
    case False
    with s5 show ?thesis by simp
  qed
  show "Prop tr' (ShortTypeName (NonPtrType_of en)) key =
           (if key = ''N'' then Some (PInt64 (EnumIfaceToInt64 en))
            else if key = ''BitFlag'' \<and> b then Some (PBool True)
            else (case p of
                    Some q \<Rightarrow> q key
                  | None \<Rightarrow> if Enums tr = None then None
                            else Prop tr (ShortTypeName (NonPtrType_of en)) key))"
    unfolding snm_def [symmetric] p5 p4 p3 p2 p1
    by (simp split: option.splits)
  have "Enums tr2 \<noteq> None" by (simp add: tr2_def tr1_def)
  moreover have "Enums tr3 = Enums tr2"
  proof (cases p)
    case None
    with s3 show ?thesis by simp
  next
    case (Some q)
    with s3 have "store_props tr2 snm q = Inr tr3" by simp
    from store_props_Inr(2) [OF this] show ?thesis .
  qed
  moreover have "Enums tr4 = Enums tr3" by (rule put_prop_Inr(2) [OF s4])
  moreover have "Enums tr' = Enums tr4"
  proof (cases b)
    case True
    with s5 have "put_prop tr4 snm ''BitFlag'' (PBool True) = Inr tr'" by simp
    from put_prop_Inr(2) [OF this] show ?thesis .
  next
    case False
    with s5 show ?thesis by simp
  qed
  ultimately show "Enums tr' \<noteq> None" by simp
qed

lemma ShortTypeName_Example [simp]: "ShortTypeName Example_type = ''kit.Example''"
  by (simp add: Example_type_def)

lemma Example_register_once:
  "AddEnum zero_EnumRegistry ExampleN True None = Inr (Example_type, Example_registered_once)"
  by (simp add: AddEnum_def Let_def zero_EnumRegistry_def ExampleN_def Example_registered_once_def
      put_prop_def Properties_def store_props_def EnumIfaceToInt64_def)

lemma Example_register_twice:
  "AddEnum Example_registered_once (Direct Example_type 2) False None
     = Inr (Example_type, Example_registered_twice)"
proof -
  have "[''N'' \<mapsto> PInt64 3, ''BitFlag'' \<mapsto> PBool True](''N'' \<mapsto> PInt64 2)
      = [''N'' \<mapsto> PInt64 2, ''BitFlag'' \<mapsto> PBool True]"
    by (rule ext) simp
  then show ?thesis
    by (simp add: AddEnum_def Let_def Example_registered_twice_def Example_registered_once_def
      put_prop_def Properties_def store_props_def EnumIfaceToInt64_def)
qed

text \<open>
  Claim C3 as stated: after \<open>AddEnum\<close> twice for one type name, first with
  \<open>bitFlag=true\<close> and then with \<open>bitFlag=false\<close>, the stored properties are
  replaced and \<open>IsBitFlag\<close> answers from the latest registration. On the code, with
  nil properties in both calls (count 3, then 2), the second call keeps the property map
  of the first: \<open>NVals\<close> is 2, and \<open>IsBitFlag\<close> is still true.
\<close>

theorem AddEnum_twice_counterexample:
  "AddEnum zero_EnumRegistry ExampleN True None = Inr (Example_type, Example_registered_once)
   \<and> AddEnum Example_registered_once (Direct Example_type 2) False None
       = Inr (Example_type, Example_registered_twice)
   \<and> IsBitFlag Example_registered_twice Example_type = True
   \<and> NVals Example_registered_twice (Direct Example_type 2) = 2"
  by (simp add: Example_register_once Example_register_twice)
     (simp add: IsBitFlag_def NVals_def Prop_def ToBool_def ToInt_def
      Example_registered_twice_def)

text \<open>
  Claim C3, amended. After \<open>AddEnum\<close> twice for one type name, first with
  \<open>bitFlag=true\<close>, \<open>NVals\<close> returns the count of the latest registration.
  \<open>IsBitFlag\<close> returns the latest \<open>bitFlag\<close> when that is true, and when the
  latest call passes properties (non-nil, holding no \<open>BitFlag\<close> key), which replace
  the stored ones; when the latest call has \<open>bitFlag=false\<close> and nil properties, the
  property map of the first registration stays and \<open>IsBitFlag\<close> is still true.
\<close>

theorem AddEnum_twice:
  assumes "AddEnum tr en1 True p1 = Inr (t1, tr1)"
    and "AddEnum tr1 en2 b2 p2 = Inr (t2, tr2)"
    and "ShortTypeName (NonPtrType_of en2) = ShortTypeName (NonPtrType_of en1)"
  shows "NVals tr2 en2 = EnumIfaceToInt64 en2
    \<and> (b2 \<longrightarrow> IsBitFlag tr2 t2)
    \<and> (\<not> b2 \<and> p2 = None \<longrightarrow> IsBitFlag tr2 t2)
    \<and> (\<forall>q. \<not> b2 \<and> p2 = Some q \<and> q ''BitFlag'' = None \<longrightarrow> \<not> IsBitFlag tr2 t2)"
proof -
  have t2: "t2 = NonPtrType_of en2" by (rule AddEnum_Inr(1) [OF assms(2)])
  have e1: "Enums tr1 \<noteq> None" by (rule AddEnum_Inr(3) [OF assms(1)])
  have n: "Prop tr2 (ShortTypeName (NonPtrType_of en2)) ''N'' = Some (PInt64 (EnumIfaceToInt64 en2))"
    using AddEnum_Inr(2) [OF assms(2), of "''N''"] by simp
  have b1: "Prop tr1 (ShortTypeName (NonPtrType_of en2)) ''BitFlag'' = Some (PBool True)"
    using AddEnum_Inr(2) [OF assms(1), of "''BitFlag''"] assms(3) by simp
  have b: "Prop tr2 (ShortTypeName (NonPtrType_of en2)) ''BitFlag'' =
      (if b2 then Some (PBool True) else (case p2 of Some q \<Rightarrow> q ''BitFlag'' | None \<Rightarrow> Some (PBool True)))"
    using AddEnum_Inr(2) [OF assms(2), of "''BitFlag''"] b1 e1 by (simp split: option.splits)
  show ?thesis
    using n b by (auto simp: NVals_def IsBitFlag_def t2 ToInt_def ToBool_def)
qed


theorem AddEnum_twice_witness:
  "AddEnum zero_EnumRegistry ExampleN True None = Inr (Example_type, Example_registered_once)
   \<and> ShortTypeName (NonPtrType_of (Direct Example_type 2)) = ShortTypeName (NonPtrType_of ExampleN)
   \<and> AddEnum Example_registered_once (Direct Example_type 2) False None
        = Inr (Example_type, Example_registered_twice)
   \<and> NVals Example_registered_twice (Direct Example_type 2) = 2
   \<and> IsBitFlag Example_registered_twice Example_type
   \<and> (\<exists>tr2. AddEnum Example_registered_once (Direct Example_type 2) True None = Inr (Example_type, tr2)
          \<and> NVals tr2 (Direct Example_type 2) = 2 \<and> IsBitFlag tr2 Example_type)
   \<and> (\<exists>tr2. AddEnum Example_registered_once (Direct Example_type 2) False (Some Map.empty)
            = Inr (Example_type, tr2)
          \<and> NVals tr2 (Direct Example_type 2) = 2 \<and> \<not> IsBitFlag tr2 Example_type)"
proof -
  have nm: "ShortTypeName (NonPtrType_of (Direct Example_type 2)) = ShortTypeName (NonPtrType_of ExampleN)"
    by (simp add: ExampleN_def)
  from AddEnum_twice [OF Example_register_once Example_register_twice nm]
  have a: "NVals Example_registered_twice (Direct Example_type 2) = 2
      \<and> IsBitFlag Example_registered_twice Example_type"
    by (simp add: EnumIfaceToInt64_def)
  obtain trb where b: "AddEnum Example_registered_once (Direct Example_type 2) True None = Inr (Example_type, trb)"
    by (simp add: AddEnum_def Let_def Example_registered_once_def
      put_prop_def Properties_def store_props_def EnumIfaceToInt64_def)
  from AddEnum_twice [OF Example_register_once b nm]
  have b': "NVals trb (Direct Example_type 2) = 2 \<and> IsBitFlag trb Example_type"
    by (simp add: EnumIfaceToInt64_def)
  obtain trc where c: "AddEnum Example_registered_once (Direct Example_type 2) False (Some Map.empty)
      = Inr (Example_type, trc)"
    by (simp add: AddEnum_def Let_def Example_registered_once_def
      put_prop_def Properties_def store_props_def EnumIfaceToInt64_def)
  from AddEnum_twice [OF Example_register_once c nm]
  have c': "NVals trc (Direct Example_type 2) = 2 \<and> \<not> IsBitFlag trc Example_type"
    by (simp add: EnumIfaceToInt64_def)
  from a b b' c c' nm show ?thesis
    using Example_register_once Example_register_twice by blast
qed

section \<open>The cached catalog and the alternate names\<close>

lemma AddEnumAltLower_loop_eq:
  "AddEnumAltLower_loop et pre n i alts =
     (\<lambda>k. if i \<le> k \<and> k < n
          then Some (ToLower (TrimPrefix (EnumInt64ToString k et) pre))
          else alts k)"
proof (induction et pre n i alts rule: AddEnumAltLower_loop.induct)
  case (1 et pre n i alts)
  show ?case
  proof (cases "i < n")
    case False
    then show ?thesis
      by (subst AddEnumAltLower_loop.simps) (auto simp: fun_eq_iff)
  next
    case True
    have "AddEnumAltLower_loop et pre n i alts =
        AddEnumAltLower_loop et pre n (i + 1)
          (alts(i \<mapsto> ToLower (TrimPrefix (EnumInt64ToString i et) pre)))"
      using True by (subst AddEnumAltLower_loop.simps) simp
    also have "\<dots> = (\<lambda>k. if i + 1 \<le> k \<and> k < n
          then Some (ToLower (TrimPrefix (EnumInt64ToString k et) pre))
          else (alts(i \<mapsto> ToLower (TrimPrefix (EnumInt64ToString i et) pre))) k)"
      by (rule "1.IH" [OF True])
    also have "\<dots> = (\<lambda>k. if i \<le> k \<and> k < n
          then Some (ToLower (TrimPrefix (EnumInt64ToString k et) pre))
          else alts k)"
      using True by (auto simp: fun_eq_iff)
    finally show ?thesis .
  qed
qed

lemma AddEnumAltLower_Inr:
  assumes "AddEnumAltLower tr en bitFlag props prefix = Inr (typ, tr')"
  shows "AltStrings tr' (ShortTypeName (NonPtrType_of en)) =
     Some (\<lambda>i. if 0 \<le> i \<and> i < EnumIfaceToInt64 en
                then Some (ToLower (TrimPrefix (EnumInt64ToString i (NonPtrType_of en)) prefix))
                else None)"
proof -
  from assms obtain t1 tr1 where a: "AddEnum tr en bitFlag props = Inr (t1, tr1)"
    by (cases "AddEnum tr en bitFlag props") (auto simp: AddEnumAltLower_def)
  have t1: "t1 = NonPtrType_of en" by (rule AddEnum_Inr(1) [OF a])
  from assms a have "put_prop tr1 (ShortTypeName t1) ''AltStrings''
      (PAltStrings (AddEnumAltLower_loop t1 prefix (EnumIfaceToInt64 en) 0 Map.empty)) = Inr tr'"
    by (auto simp: AddEnumAltLower_def Let_def split: sum.splits)
  from put_prop_Inr(1) [OF this, of "''AltStrings''"]
  show ?thesis
    by (simp add: AltStrings_def t1 AddEnumAltLower_loop_eq)
qed

lemma TestFlags_names:
  "EnumInt64ToString 0 TestFlags_type = ''TestFlagsNil''"
  "EnumInt64ToString 1 TestFlags_type = ''TestFlag1''"
  "EnumInt64ToString 2 TestFlags_type = ''TestFlag2''"
  by (simp_all add: EnumInt64ToString_def EnumIfaceFromInt64_def EnumIfaceToString_def
      SetEnumValueFromInt64_def reflect_New_def Elem_Interface_def TestFlags_type_def
      TestFlags_stringer_def String_of_def name_at_def slice_def)

lemma TestFlags_alts:
  "ToLower (TrimPrefix ''TestFlagsNil'' ''Test'') = ''flagsnil''"
  "ToLower (TrimPrefix ''TestFlag1'' ''Test'') = ''flag1''"
  "ToLower (TrimPrefix ''TestFlag2'' ''Test'') = ''flag2''"
  by (simp_all add: ToLower_def TrimPrefix_def to_lower_char_def)

lemma KiT_TestFlags_Inr: "\<exists>tr'. KiT_TestFlags = Inr (TestFlags_type, tr')"
  by (simp add: KiT_TestFlags_def AddEnumAltLower_def AddEnum_def Let_def zero_EnumRegistry_def
      TestFlagsN_def put_prop_def Properties_def store_props_def EnumIfaceToInt64_def)

text \<open>
  Claim C9. When \<open>AddEnumAltLower\<close> returns, the \<open>AltStrings\<close> of the type map
  every ordinal \<open>i\<close> in \<open>[0, N)\<close>, and no other, to the canonical name of \<open>i\<close>
  with the prefix trimmed from its start and the rest lower-cased. For \<open>TestFlags\<close>,
  whose canonical names are \<open>TestFlagsNil\<close>, \<open>TestFlag1\<close>, \<open>TestFlag2\<close>,
  registered with prefix \<open>Test\<close> (enums.go:661), the alternate names are
  \<open>flagsnil\<close>, \<open>flag1\<close>, \<open>flag2\<close>.
\<close>

theorem AddEnumAltLower_AltStrings:
  "(AddEnumAltLower tr en bitFlag props prefix = Inr (typ, tr') \<longrightarrow>
      AltStrings tr' (ShortTypeName (NonPtrType_of en)) =
        Some (\<lambda>i. if 0 \<le> i \<and> i < EnumIfaceToInt64 en
                   then Some (ToLower (TrimPrefix (EnumInt64ToString i (NonPtrType_of en)) prefix))
                   else None))
   \<and> map (\<lambda>i. EnumInt64ToString i TestFlags_type) [0, 1, 2]
        = [''TestFlagsNil'', ''TestFlag1'', ''TestFlag2'']
   \<and> (\<exists>reg. KiT_TestFlags = Inr (TestFlags_type, reg)
         \<and> AltStrings reg ''kit.TestFlags''
             = Some [0 \<mapsto> ''flagsnil'', 1 \<mapsto> ''flag1'', 2 \<mapsto> ''flag2''])"
proof (intro conjI impI)
  assume "AddEnumAltLower tr en bitFlag props prefix = Inr (typ, tr')"
  then show "AltStrings tr' (ShortTypeName (NonPtrType_of en)) =
        Some (\<lambda>i. if 0 \<le> i \<and> i < EnumIfaceToInt64 en
                   then Some (ToLower (TrimPrefix (EnumInt64ToString i (NonPtrType_of en)) prefix))
                   else None)"
    by (rule AddEnumAltLower_Inr)
next
  show "map (\<lambda>i. EnumInt64ToString i TestFlags_type) [0, 1, 2]
        = [''TestFlagsNil'', ''TestFlag1'', ''TestFlag2'']"
    by (simp add: TestFlags_names)
next
  from KiT_TestFlags_Inr obtain reg where reg: "KiT_TestFlags = Inr (TestFlags_type, reg)" ..
  then have "AddEnumAltLower zero_EnumRegistry TestFlagsN False None ''Test'' = Inr (TestFlags_type, reg)"
    by (simp add: KiT_TestFlags_def)
  from AddEnumAltLower_Inr [OF this]
  have raw: "AltStrings reg (ShortTypeName (NonPtrType_of TestFlagsN)) =
     Some (\<lambda>i. if 0 \<le> i \<and> i < EnumIfaceToInt64 TestFlagsN
                then Some (ToLower (TrimPrefix (EnumInt64ToString i (NonPtrType_of TestFlagsN)) ''Test''))
                else None)" .
  have ty: "NonPtrType_of TestFlagsN = TestFlags_type" and cnt: "EnumIfaceToInt64 TestFlagsN = 3"
    by (simp_all add: TestFlagsN_def EnumIfaceToInt64_def)
  have nm: "ShortTypeName TestFlags_type = ''kit.TestFlags''"
    by (simp add: TestFlags_type_def)
  have "AltStrings reg ''kit.TestFlags'' =
     Some (\<lambda>i. if 0 \<le> i \<and> i < 3
                then Some (ToLower (TrimPrefix (EnumInt64ToString i TestFlags_type) ''Test''))
                else None)"
    using raw unfolding ty cnt nm .
  moreover have "(\<lambda>i::int. if 0 \<le> i \<and> i < 3
                then Some (ToLower (TrimPrefix (EnumInt64ToString i TestFlags_type) ''Test''))
                else None) = [0 \<mapsto> ''flagsnil'', 1 \<mapsto> ''flag1'', 2 \<mapsto> ''flag2'']"
  proof (rule ext)
    fix i :: int
    consider "i = 0" | "i = 1" | "i = 2" | "i < 0 \<or> 3 \<le> i" by linarith
    then show "(if 0 \<le> i \<and> i < 3
                then Some (ToLower (TrimPrefix (EnumInt64ToString i TestFlags_type) ''Test''))
                else None) = [0 \<mapsto> ''flagsnil'', 1 \<mapsto> ''flag1'', 2 \<mapsto> ''flag2''] i"
      by cases (auto simp: TestFlags_names TestFlags_alts)
  qed
  ultimately show "\<exists>reg. KiT_TestFlags = Inr (TestFlags_type, reg)
         \<and> AltStrings reg ''kit.TestFlags''
             = Some [0 \<mapsto> ''flagsnil'', 1 \<mapsto> ''flag1'', 2 \<mapsto> ''flag2'']"
    using reg by auto
qed


theorem AddEnumAltLower_AltStrings_witness:
  "\<exists>reg. AddEnumAltLower zero_EnumRegistry TestFlagsN False None ''Test'' = Inr (TestFlags_type, reg)
     \<and> AltStrings reg (ShortTypeName (NonPtrType_of TestFlagsN)) =
        Some (\<lambda>i. if 0 \<le> i \<and> i < EnumIfaceToInt64 TestFlagsN
                   then Some (ToLower (TrimPrefix (EnumInt64ToString i (NonPtrType_of TestFlagsN)) ''Test''))
                   else None)"
proof -
  from KiT_TestFlags_Inr obtain reg
    where reg: "AddEnumAltLower zero_EnumRegistry TestFlagsN False None ''Test'' = Inr (TestFlags_type, reg)"
    by (auto simp: KiT_TestFlags_def)
  with AddEnumAltLower_AltStrings [of zero_EnumRegistry TestFlagsN False None "''Test''" TestFlags_type reg]
  show ?thesis by blast
qed

lemma Values_loop_None:
  "Values_loop None alt alts n i vals = (if i < n then Inl ReflectNewNil else Inr vals)"
  by (subst Values_loop.simps) simp

lemma Values_loop_Some:
  assumes "0 \<le> i" and "length vals = nat n"
  shows "Values_loop (Some t) alt alts n i vals =
     Inr (take (nat i) vals @ map (catalog_entry t alt alts) [i..n - 1])"
  using assms
proof (induction "Some t" alt alts n i vals rule: Values_loop.induct)
  case (1 alt alts n i vals)
  show ?case
  proof (cases "i < n")
    case False
    then have "[i..n - 1] = []" by simp
    moreover from False "1.prems" have "take (nat i) vals = vals" by simp
    ultimately show ?thesis
      using False by (subst Values_loop.simps) simp
  next
    case True
    define e where "e = catalog_entry t alt alts i"
    have u: "[i..n - 1] = i # [i + 1..n - 1]"
      using True by (simp add: upto_rec1)
    have len: "nat i < length vals" using True "1.prems" by simp
    have "Values_loop (Some t) alt alts n i vals =
        Values_loop (Some t) alt alts n (i + 1) (vals[nat i := e])"
      using True by (subst Values_loop.simps) (simp add: e_def catalog_entry_def Let_def)
    also have "\<dots> = Inr (take (nat (i + 1)) (vals[nat i := e])
        @ map (catalog_entry t alt alts) [i + 1..n - 1])"
      using "1.hyps" [OF True refl refl refl] "1.prems" True
      by (simp add: e_def catalog_entry_def Let_def)
    also have "take (nat (i + 1)) (vals[nat i := e]) = take (nat i) vals @ [e]"
    proof -
      have "nat (i + 1) = Suc (nat i)" using "1.prems" by simp
      then show ?thesis using len
        by (simp add: take_Suc_conv_app_nth)
    qed
    finally show ?thesis by (simp add: u e_def)
  qed
qed


text \<open>
  Claim C7. The catalog of a type is built once and cached under the type name alone,
  whatever the alternate-names flag. When \<open>Values\<close> returns, the registry holds the
  returned list under the name, and a later call for the name with either value of the
  flag returns that same list and leaves the registry as it is, so every later call does.
  When the name had a cached list, that list is returned and the registry is not changed.
  When it had none, the list returned is the one just built, one entry for each ordinal
  of \<open>[0, N)\<close> in order, named by the flag of this first call, and the registry changes
  only in that the list is stored under the name.
\<close>

theorem Values_cached:
  assumes "Values tr enumName a = Inr (vals, tr')"
  shows "(\<exists>vm. Vals tr' = Some vm \<and> vm enumName = Some vals)
    \<and> Values tr' enumName b = Inr (vals, tr')
    \<and> (\<forall>c. (case Vals tr of None \<Rightarrow> None | Some vm \<Rightarrow> vm enumName) = Some c
           \<longrightarrow> vals = c \<and> tr' = tr)
    \<and> ((case Vals tr of None \<Rightarrow> None | Some vm \<Rightarrow> vm enumName) = None \<longrightarrow>
          (\<exists>vm. Vals tr = Some vm \<and> tr' = tr\<lparr>Vals := Some (vm(enumName \<mapsto> vals))\<rparr>)
          \<and> Prop tr enumName ''N'' = Some (PInt64 (int (length vals)))
          \<and> (\<forall>t. Enum tr enumName = Some t \<longrightarrow>
                vals = map (catalog_entry t a (AltStrings tr enumName)) [0..int (length vals) - 1])
          \<and> (Enum tr enumName = None \<longrightarrow> vals = []))"
proof (cases "case Vals tr of None \<Rightarrow> None | Some vm \<Rightarrow> vm enumName")
  case (Some c)
  with assms have eq: "vals = c" "tr' = tr"
    by (simp_all add: Values_def)
  from Some obtain vm where "Vals tr = Some vm" "vm enumName = Some c"
    by (auto split: option.splits)
  with eq Some show ?thesis by (simp add: Values_def)
next
  case None
  define et where "et = Enum tr enumName"
  define alts where "alts = AltStrings tr enumName"
  from assms None have r: "(case Prop tr enumName ''N'' of
        Some (PInt64 n) \<Rightarrow>
          if n < 0 then Inl MakeSliceLen
          else (case Values_loop et a alts n 0
                       (replicate (nat n) \<lparr>Name = [], Value = 0, Type = None\<rparr>) of
                  Inl e \<Rightarrow> Inl e
                | Inr vals \<Rightarrow>
                    (case Vals tr of
                       None \<Rightarrow> Inl NilMapWrite
                     | Some vm \<Rightarrow> Inr (vals, tr\<lparr>Vals := Some (vm(enumName \<mapsto> vals))\<rparr>)))
      | _ \<Rightarrow> Inl TypeAssertion) = Inr (vals, tr')"
    unfolding et_def alts_def Enum_def by (simp add: Values_def Let_def)
  then obtain n where n: "Prop tr enumName ''N'' = Some (PInt64 n)"
    by (cases "Prop tr enumName ''N''") (auto split: prop_val.splits)
  with r have n0: "0 \<le> n"
    and r2: "(case Values_loop et a alts n 0
                       (replicate (nat n) \<lparr>Name = [], Value = 0, Type = None\<rparr>) of
                  Inl e \<Rightarrow> Inl e
                | Inr vals \<Rightarrow>
                    (case Vals tr of
                       None \<Rightarrow> Inl NilMapWrite
                     | Some vm \<Rightarrow> Inr (vals, tr\<lparr>Vals := Some (vm(enumName \<mapsto> vals))\<rparr>)))
        = Inr (vals, tr')"
    by (auto split: if_splits)
  from r2 obtain built where b: "Values_loop et a alts n 0
      (replicate (nat n) \<lparr>Name = [], Value = 0, Type = None\<rparr>) = Inr built"
    and r3: "(case Vals tr of
                       None \<Rightarrow> Inl NilMapWrite
                     | Some vm \<Rightarrow> Inr (built, tr\<lparr>Vals := Some (vm(enumName \<mapsto> built))\<rparr>))
        = Inr (vals, tr')"
    by (cases "Values_loop et a alts n 0
      (replicate (nat n) \<lparr>Name = [], Value = 0, Type = None\<rparr>)") auto
  from r3 obtain vm where vm: "Vals tr = Some vm"
    and v: "vals = built" and t': "tr' = tr\<lparr>Vals := Some (vm(enumName \<mapsto> vals))\<rparr>"
    by (cases "Vals tr") auto
  have shape: "(\<forall>t. et = Some t \<longrightarrow> vals = map (catalog_entry t a alts) [0..n - 1])
      \<and> (et = None \<longrightarrow> vals = []) \<and> length vals = nat n"
  proof (cases et)
    case None
    with b have "\<not> 0 < n" and "built = replicate (nat n) \<lparr>Name = [], Value = 0, Type = None\<rparr>"
      by (auto simp: Values_loop_None split: if_splits)
    with None v show ?thesis by simp
  next
    case (Some t)
    from Values_loop_Some [of 0 "replicate (nat n) \<lparr>Name = [], Value = 0, Type = None\<rparr>" n t a alts]
      b Some
    have "built = map (catalog_entry t a alts) [0..n - 1]" by simp
    with Some v n0 show ?thesis by simp
  qed
  then have len: "int (length vals) = n" using n0 by simp
  from t' vm have second: "Values tr' enumName b = Inr (vals, tr')"
    by (simp add: Values_def)
  from t' vm have cached: "\<exists>vm. Vals tr' = Some vm \<and> vm enumName = Some vals"
    by simp
  from None n vm t' shape len second cached show ?thesis
    unfolding et_def alts_def by auto
qed

lemma TestFlags_alts_map:
  "AddEnumAltLower_loop TestFlags_type ''Test'' 3 0 Map.empty
     = [0 \<mapsto> ''flagsnil'', 1 \<mapsto> ''flag1'', 2 \<mapsto> ''flag2'']"
proof (rule ext)
  fix i :: int
  consider "i = 0" | "i = 1" | "i = 2" | "i < 0 \<or> 3 \<le> i" by linarith
  then show "AddEnumAltLower_loop TestFlags_type ''Test'' 3 0 Map.empty i
      = [0 \<mapsto> ''flagsnil'', 1 \<mapsto> ''flag1'', 2 \<mapsto> ''flag2''] i"
    by cases (auto simp: AddEnumAltLower_loop_eq TestFlags_names TestFlags_alts)
qed

lemma KiT_TestFlags_registered:
  "KiT_TestFlags = Inr (TestFlags_type, TestFlags_registered)"
proof -
  have nm: "ShortTypeName TestFlags_type = ''kit.TestFlags''"
    by (simp add: TestFlags_type_def)
  show ?thesis
    by (simp add: KiT_TestFlags_def AddEnumAltLower_def AddEnum_def Let_def zero_EnumRegistry_def
      TestFlagsN_def put_prop_def Properties_def store_props_def EnumIfaceToInt64_def nm
      TestFlags_alts_map TestFlags_registered_def)
qed

lemma TestFlags_registered_facts:
  "Prop TestFlags_registered ''kit.TestFlags'' ''N'' = Some (PInt64 3)"
  "AltStrings TestFlags_registered ''kit.TestFlags''
     = Some [0 \<mapsto> ''flagsnil'', 1 \<mapsto> ''flag1'', 2 \<mapsto> ''flag2'']"
  "Enums TestFlags_registered = Some [''kit.TestFlags'' \<mapsto> TestFlags_type]"
  "Vals TestFlags_registered = Some Map.empty"
  by (simp_all add: TestFlags_registered_def Prop_def AltStrings_def)

lemma upto_0_2: "[0..2] = [0, 1, (2::int)]"
  by (simp add: upto_rec1)

lemma TestFlags_Values_canonical:
  "Values TestFlags_registered ''kit.TestFlags'' False =
     Inr (TestFlags_canonical_catalog,
          TestFlags_registered\<lparr>Vals := Some [''kit.TestFlags'' \<mapsto> TestFlags_canonical_catalog]\<rparr>)"
  by (simp add: Values_def Let_def TestFlags_registered_facts Values_loop_Some upto_0_2
      catalog_entry_def TestFlags_names TestFlags_canonical_catalog_def)

lemma TestFlags_Values_alternate:
  "Values TestFlags_registered ''kit.TestFlags'' True =
     Inr (TestFlags_alternate_catalog,
          TestFlags_registered\<lparr>Vals := Some [''kit.TestFlags'' \<mapsto> TestFlags_alternate_catalog]\<rparr>)"
  by (simp add: Values_def Let_def TestFlags_registered_facts Values_loop_Some upto_0_2
      catalog_entry_def TestFlags_names TestFlags_alternate_catalog_def)

theorem Values_cached_witness:
  "KiT_TestFlags = Inr (TestFlags_type, TestFlags_registered)
   \<and> Values TestFlags_registered ''kit.TestFlags'' False =
       Inr (TestFlags_canonical_catalog,
            TestFlags_registered\<lparr>Vals := Some [''kit.TestFlags'' \<mapsto> TestFlags_canonical_catalog]\<rparr>)
   \<and> Values (TestFlags_registered\<lparr>Vals := Some [''kit.TestFlags'' \<mapsto> TestFlags_canonical_catalog]\<rparr>)
         ''kit.TestFlags'' True =
       Inr (TestFlags_canonical_catalog,
            TestFlags_registered\<lparr>Vals := Some [''kit.TestFlags'' \<mapsto> TestFlags_canonical_catalog]\<rparr>)
   \<and> Values TestFlags_registered ''kit.TestFlags'' True =
       Inr (TestFlags_alternate_catalog,
            TestFlags_registered\<lparr>Vals := Some [''kit.TestFlags'' \<mapsto> TestFlags_alternate_catalog]\<rparr>)
   \<and> Values (TestFlags_registered\<lparr>Vals := Some [''kit.TestFlags'' \<mapsto> TestFlags_alternate_catalog]\<rparr>)
         ''kit.TestFlags'' False =
       Inr (TestFlags_alternate_catalog,
            TestFlags_registered\<lparr>Vals := Some [''kit.TestFlags'' \<mapsto> TestFlags_alternate_catalog]\<rparr>)
   \<and> Values (TestFlags_registered\<lparr>Vals := Some [''kit.TestFlags'' \<mapsto> TestFlags_canonical_catalog]\<rparr>)
         ''kit.TestFlags'' False =
       Inr (TestFlags_canonical_catalog,
            TestFlags_registered\<lparr>Vals := Some [''kit.TestFlags'' \<mapsto> TestFlags_canonical_catalog]\<rparr>)
   \<and> TestFlags_canonical_catalog \<noteq> TestFlags_alternate_catalog"
proof -
  from Values_cached [OF TestFlags_Values_canonical, of True]
  have c: "Values (TestFlags_registered\<lparr>Vals := Some [''kit.TestFlags'' \<mapsto> TestFlags_canonical_catalog]\<rparr>)
         ''kit.TestFlags'' True =
       Inr (TestFlags_canonical_catalog,
            TestFlags_registered\<lparr>Vals := Some [''kit.TestFlags'' \<mapsto> TestFlags_canonical_catalog]\<rparr>)"
    by blast
  from Values_cached [OF TestFlags_Values_alternate, of False]
  have d: "Values (TestFlags_registered\<lparr>Vals := Some [''kit.TestFlags'' \<mapsto> TestFlags_alternate_catalog]\<rparr>)
         ''kit.TestFlags'' False =
       Inr (TestFlags_alternate_catalog,
            TestFlags_registered\<lparr>Vals := Some [''kit.TestFlags'' \<mapsto> TestFlags_alternate_catalog]\<rparr>)"
    by blast
  from Values_cached [OF c, of False]
  have c': "Values (TestFlags_registered\<lparr>Vals := Some [''kit.TestFlags'' \<mapsto> TestFlags_canonical_catalog]\<rparr>)
         ''kit.TestFlags'' False =
       Inr (TestFlags_canonical_catalog,
            TestFlags_registered\<lparr>Vals := Some [''kit.TestFlags'' \<mapsto> TestFlags_canonical_catalog]\<rparr>)"
    by blast
  have ne: "TestFlags_canonical_catalog \<noteq> TestFlags_alternate_catalog"
    by (simp add: TestFlags_canonical_catalog_def TestFlags_alternate_catalog_def)
  from KiT_TestFlags_registered TestFlags_Values_canonical TestFlags_Values_alternate c c' d ne
  show ?thesis by simp
qed

section \<open>The bit-flag encoding\<close>

lemma BitFlagsToString_loop_foldl:
  "BitFlagsToString_loop et bflg n i str =
     foldl (append_name et) str (filter (bitflag_Has bflg) [i..n - 1])"
proof (induction et bflg n i str rule: BitFlagsToString_loop.induct)
  case (1 et bflg n i str)
  show ?case
  proof (cases "i < n")
    case False
    then have "[i..n - 1] = []" by simp
    with False show ?thesis
      by (subst BitFlagsToString_loop.simps) simp
  next
    case True
    then have u: "[i..n - 1] = i # [i + 1..n - 1]"
      by (simp add: upto_rec1)
    have "BitFlagsToString_loop et bflg n i str =
        BitFlagsToString_loop et bflg n (i + 1)
          (if bitflag_Has bflg i then append_name et str i else str)"
      using True by (subst BitFlagsToString_loop.simps) (simp add: append_name_def)
    also have "\<dots> = foldl (append_name et)
          (if bitflag_Has bflg i then append_name et str i else str)
          (filter (bitflag_Has bflg) [i + 1..n - 1])"
      using "1.IH" [OF True] unfolding append_name_def .
    also have "\<dots> = foldl (append_name et) str (filter (bitflag_Has bflg) [i..n - 1])"
      by (simp add: u)
    finally show ?thesis .
  qed
qed

lemma join_bar_Cons: "join_bar (a # as) = a @ concat (map (\<lambda>b. ''|'' @ b) as)"
  by (induction as arbitrary: a) simp_all

lemma foldl_append_name:
  assumes "\<forall>k \<in> set ks. EnumInt64ToString k et \<noteq> []"
  shows "foldl (append_name et) str ks =
     (if str = [] then join_bar (map (\<lambda>k. EnumInt64ToString k et) ks)
      else str @ concat (map (\<lambda>k. ''|'' @ EnumInt64ToString k et) ks))"
  using assms
proof (induction ks arbitrary: str)
  case Nil
  then show ?case by simp
next
  case (Cons k ks)
  define s' where "s' = append_name et str k"
  have s': "s' = (if str = [] then EnumInt64ToString k et else str @ ''|'' @ EnumInt64ToString k et)"
    by (simp add: s'_def append_name_def Let_def)
  have ne: "s' \<noteq> []"
    using Cons.prems by (simp add: s')
  have rest: "\<forall>k \<in> set ks. EnumInt64ToString k et \<noteq> []"
    using Cons.prems by simp
  have "foldl (append_name et) str (k # ks) = foldl (append_name et) s' ks"
    by (simp add: s'_def)
  also have "\<dots> = s' @ concat (map (\<lambda>k. ''|'' @ EnumInt64ToString k et) ks)"
    using Cons.IH [OF rest, of s'] ne by simp
  also have "\<dots> = (if str = [] then join_bar (map (\<lambda>k. EnumInt64ToString k et) (k # ks))
      else str @ concat (map (\<lambda>k. ''|'' @ EnumInt64ToString k et) (k # ks)))"
    by (simp add: s' join_bar_Cons comp_def)
  finally show ?case .
qed

lemma set_set_ordinals:
  "set (set_ordinals bflg n) = {k. 0 \<le> k \<and> k < n \<and> bitflag_Has bflg k}"
  by (auto simp: set_ordinals_def)

text \<open>
  Claim C6. For every bit pattern and count \<open>N\<close>, \<open>BitFlagsToString\<close> gives the
  names of exactly the ordinals in \<open>0..N-1\<close> whose bit is set, in strictly ascending
  ordinal order, joined with \<open>|\<close>, for a type that names each of these ordinals (no
  name is the empty string); the names are pairwise different when the type names
  different ordinals differently; and the result is the empty string when no bit in
  \<open>[0, N)\<close> is set.
\<close>

theorem BitFlagsToString_names:
  "((\<forall>k. 0 \<le> k \<and> k < EnumIfaceToInt64 en \<longrightarrow> EnumInt64ToString k (NonPtrType_of en) \<noteq> [])
      \<longrightarrow> BitFlagsToString bflg en =
            join_bar (map (\<lambda>k. EnumInt64ToString k (NonPtrType_of en))
                        (set_ordinals bflg (EnumIfaceToInt64 en))))
   \<and> sorted_wrt (<) (set_ordinals bflg (EnumIfaceToInt64 en))
   \<and> set (set_ordinals bflg (EnumIfaceToInt64 en))
        = {k. 0 \<le> k \<and> k < EnumIfaceToInt64 en \<and> bitflag_Has bflg k}
   \<and> (inj_on (\<lambda>k. EnumInt64ToString k (NonPtrType_of en)) {0..<EnumIfaceToInt64 en}
        \<longrightarrow> distinct (map (\<lambda>k. EnumInt64ToString k (NonPtrType_of en))
                          (set_ordinals bflg (EnumIfaceToInt64 en))))
   \<and> ((\<forall>k. 0 \<le> k \<and> k < EnumIfaceToInt64 en \<longrightarrow> \<not> bitflag_Has bflg k)
        \<longrightarrow> BitFlagsToString bflg en = [])"
proof (intro conjI impI)
  assume ne: "\<forall>k. 0 \<le> k \<and> k < EnumIfaceToInt64 en \<longrightarrow> EnumInt64ToString k (NonPtrType_of en) \<noteq> []"
  then have "\<forall>k \<in> set (set_ordinals bflg (EnumIfaceToInt64 en)).
      EnumInt64ToString k (NonPtrType_of en) \<noteq> []"
    by (simp add: set_set_ordinals)
  from foldl_append_name [OF this, of "[]"]
  show "BitFlagsToString bflg en =
      join_bar (map (\<lambda>k. EnumInt64ToString k (NonPtrType_of en))
                  (set_ordinals bflg (EnumIfaceToInt64 en)))"
    by (simp add: BitFlagsToString_def BitFlagsToString_loop_foldl set_ordinals_def)
next
  show "sorted_wrt (<) (set_ordinals bflg (EnumIfaceToInt64 en))"
    unfolding set_ordinals_def by (rule sorted_wrt_filter) (rule sorted_wrt_upto)
next
  show "set (set_ordinals bflg (EnumIfaceToInt64 en))
        = {k. 0 \<le> k \<and> k < EnumIfaceToInt64 en \<and> bitflag_Has bflg k}"
    by (rule set_set_ordinals)
next
  assume inj: "inj_on (\<lambda>k. EnumInt64ToString k (NonPtrType_of en)) {0..<EnumIfaceToInt64 en}"
  have d: "distinct (set_ordinals bflg (EnumIfaceToInt64 en))"
    by (simp add: set_ordinals_def)
  have "set (set_ordinals bflg (EnumIfaceToInt64 en)) \<subseteq> {0..<EnumIfaceToInt64 en}"
    by (auto simp: set_set_ordinals)
  with inj have "inj_on (\<lambda>k. EnumInt64ToString k (NonPtrType_of en))
      (set (set_ordinals bflg (EnumIfaceToInt64 en)))"
    by (rule inj_on_subset)
  with d show "distinct (map (\<lambda>k. EnumInt64ToString k (NonPtrType_of en))
      (set_ordinals bflg (EnumIfaceToInt64 en)))"
    by (simp add: distinct_map)
next
  assume "\<forall>k. 0 \<le> k \<and> k < EnumIfaceToInt64 en \<longrightarrow> \<not> bitflag_Has bflg k"
  then have "filter (bitflag_Has bflg) [0..EnumIfaceToInt64 en - 1] = []"
    by (auto simp: filter_empty_conv)
  then show "BitFlagsToString bflg en = []"
    by (simp add: BitFlagsToString_def BitFlagsToString_loop_foldl)
qed

lemma Example_names:
  "EnumInt64ToString 0 Example_type = ''Nil''"
  "EnumInt64ToString 1 Example_type = ''FlagA''"
  "EnumInt64ToString 2 Example_type = ''FlagB''"
  by (simp_all add: EnumInt64ToString_def EnumIfaceFromInt64_def EnumIfaceToString_def
      SetEnumValueFromInt64_def reflect_New_def Elem_Interface_def Example_type_def
      Example_stringer_def String_of_def name_at_def slice_def)

lemma below_3_cases: "0 \<le> k \<Longrightarrow> k < 3 \<Longrightarrow> k = 0 \<or> k = 1 \<or> k = (2::int)"
  by linarith

lemma set_ordinals_6: "set_ordinals 6 3 = [1, 2]"
  by (simp add: set_ordinals_def upto_rec1 bitflag_Has_def)

theorem BitFlagsToString_names_witness:
  "EnumInt64ToString 0 Example_type = ''Nil''
   \<and> EnumInt64ToString 1 Example_type = ''FlagA''
   \<and> EnumInt64ToString 2 Example_type = ''FlagB''
   \<and> set_ordinals 6 3 = [1, 2]
   \<and> BitFlagsToString 6 ExampleN = ''FlagA|FlagB''
   \<and> distinct (map (\<lambda>k. EnumInt64ToString k Example_type) (set_ordinals 6 3))
   \<and> set_ordinals 0 3 = []
   \<and> BitFlagsToString 0 ExampleN = []"
proof -
  have n: "EnumIfaceToInt64 ExampleN = 3" and t: "NonPtrType_of ExampleN = Example_type"
    by (simp_all add: ExampleN_def EnumIfaceToInt64_def)
  have ne: "\<forall>k. 0 \<le> k \<and> k < EnumIfaceToInt64 ExampleN \<longrightarrow> EnumInt64ToString k (NonPtrType_of ExampleN) \<noteq> []"
    unfolding n t
  proof (intro allI impI)
    fix k :: int assume "0 \<le> k \<and> k < 3"
    then have "k = 0 \<or> k = 1 \<or> k = 2" by (simp add: below_3_cases)
    then show "EnumInt64ToString k Example_type \<noteq> []"
      by (auto simp: Example_names)
  qed
  have inj: "inj_on (\<lambda>k. EnumInt64ToString k (NonPtrType_of ExampleN)) {0..<EnumIfaceToInt64 ExampleN}"
    unfolding n t inj_on_def
  proof (intro ballI impI)
    fix x y :: int
    assume "x \<in> {0..<3}" "y \<in> {0..<3}"
    then have "x = 0 \<or> x = 1 \<or> x = 2" "y = 0 \<or> y = 1 \<or> y = 2" by auto
    moreover assume "EnumInt64ToString x Example_type = EnumInt64ToString y Example_type"
    ultimately show "x = y" by (auto simp: Example_names)
  qed
  have z: "\<forall>k. 0 \<le> k \<and> k < EnumIfaceToInt64 ExampleN \<longrightarrow> \<not> bitflag_Has 0 k"
    by (simp add: bitflag_Has_def)
  from BitFlagsToString_names [of ExampleN 6] ne inj
  have "BitFlagsToString 6 ExampleN =
      join_bar (map (\<lambda>k. EnumInt64ToString k (NonPtrType_of ExampleN))
                  (set_ordinals 6 (EnumIfaceToInt64 ExampleN)))"
    and d: "distinct (map (\<lambda>k. EnumInt64ToString k (NonPtrType_of ExampleN))
                  (set_ordinals 6 (EnumIfaceToInt64 ExampleN)))"
    by blast+
  then have e: "BitFlagsToString 6 ExampleN = ''FlagA|FlagB''"
    unfolding n t by (simp add: set_ordinals_6 Example_names)
  from BitFlagsToString_names [of ExampleN 0] z
  have e0: "BitFlagsToString 0 ExampleN = []" by blast
  have s0: "set_ordinals 0 3 = []"
    by (simp add: set_ordinals_def bitflag_Has_def)
  from d have d': "distinct (map (\<lambda>k. EnumInt64ToString k Example_type) (set_ordinals 6 3))"
    unfolding n t .
  from e e0 d' s0 show ?thesis
    by (simp add: Example_names set_ordinals_6)
qed

section \<open>Decoding the encoding of a non-empty set\<close>

text \<open>
  Away from the empty set the two directions of the codec agree. For a type whose
  \<open>FromString\<close> parses the name of every ordinal below \<open>n\<close> to that ordinal, with
  names that are non-empty and hold no \<open>|\<close>, and a non-empty bit pattern with no bit at
  or above \<open>n\<close>, decoding the encoding from the empty set returns nil and the pattern.
\<close>

lemma Split_from_append:
  "sep \<notin> set a \<Longrightarrow> Split_from (a @ s) sep cur = Split_from s sep (cur @ a)"
  by (induction a arbitrary: cur) auto

lemma Split_from_join:
  "\<forall>x \<in> set (a # as). sep \<notin> set x \<Longrightarrow>
     Split_from (a @ concat (map (\<lambda>b. sep # b) as)) sep cur = (cur @ a) # as"
proof (induction as arbitrary: a cur)
  case Nil
  then have "sep \<notin> set a" by simp
  from Split_from_append [OF this, of "[]" cur] show ?case by simp
next
  case (Cons b bs)
  have a: "sep \<notin> set a" using Cons.prems by simp
  have rest: "\<forall>x \<in> set (b # bs). sep \<notin> set x" using Cons.prems by simp
  have "Split_from (a @ concat (map (\<lambda>b. sep # b) (b # bs))) sep cur
      = Split_from (sep # (b @ concat (map (\<lambda>b. sep # b) bs))) sep (cur @ a)"
    using Split_from_append [OF a] by simp
  also have "\<dots> = (cur @ a) # Split_from (b @ concat (map (\<lambda>b. sep # b) bs)) sep []"
    by simp
  also have "\<dots> = (cur @ a) # b # bs"
    using Cons.IH [OF rest, of "[]"] by simp
  finally show ?case .
qed

lemma Split_join_bar:
  assumes "names \<noteq> []" and "\<forall>x \<in> set names. CHR ''|'' \<notin> set x"
  shows "Split (join_bar names) CHR ''|'' = names"
proof -
  from assms(1) obtain a as where n: "names = a # as" by (cases names) auto
  have "join_bar names = a @ concat (map (\<lambda>b. CHR ''|'' # b) as)"
    by (simp add: n join_bar_Cons)
  with Split_from_join [of a as "CHR ''|''" "[]"] assms(2) n show ?thesis
    by (simp add: Split_def)
qed

lemma BitFlagsTypeFromString_loop_parsed:
  assumes "FromString_method et = Some meth"
    and "\<forall>k \<in> set ks. \<forall>v. meth (EnumInt64ToString k et) v = (None, k)"
  shows "BitFlagsTypeFromString_loop (map (\<lambda>k. EnumInt64ToString k et) ks) (Pointer et v) err bflg
     = ((if ks = [] then err else None), foldl bitflag_Set bflg ks)"
  using assms(2)
proof (induction ks arbitrary: v err bflg)
  case Nil
  then show ?case by simp
next
  case (Cons k ks)
  have "SetEnumValueFromString (Pointer et v) (EnumInt64ToString k et) = (None, Pointer et k)"
    using assms(1) Cons.prems by (simp add: SetEnumValueFromString_def)
  moreover have "\<forall>k \<in> set ks. \<forall>v. meth (EnumInt64ToString k et) v = (None, k)"
    using Cons.prems by simp
  ultimately show ?case
    using Cons.IH [of k None "bitflag_Set bflg k"]
    by (simp add: EnumIfaceToInt64_def)
qed

lemma bit_bitflag_Set:
  "bit (bitflag_Set bflg k) i \<longleftrightarrow> bit bflg i \<or> (0 \<le> k \<and> i = nat k \<and> i < 64)"
  by (auto simp: bitflag_Set_def bit_or_iff bit_exp_iff possible_bit_word)

lemma bit_foldl_bitflag_Set:
  "bit (foldl bitflag_Set bflg ks) i \<longleftrightarrow> bit bflg i \<or> (\<exists>k \<in> set ks. 0 \<le> k \<and> i = nat k \<and> i < 64)"
  by (induction ks arbitrary: bflg) (auto simp: bit_bitflag_Set)

lemma BitFlags_roundtrip_nonempty:
  assumes meth: "FromString_method et = Some meth"
    and parse: "\<forall>k. 0 \<le> k \<and> k < n \<longrightarrow> (\<forall>v. meth (EnumInt64ToString k et) v = (None, k))"
    and named: "\<forall>k. 0 \<le> k \<and> k < n \<longrightarrow> EnumInt64ToString k et \<noteq> []"
    and nobar: "\<forall>k. 0 \<le> k \<and> k < n \<longrightarrow> CHR ''|'' \<notin> set (EnumInt64ToString k et)"
    and subset: "\<forall>i. bit b i \<longrightarrow> int i < n"
    and nonempty: "b \<noteq> 0"
  shows "BitFlagsTypeFromString 0 (BitFlagsToString b (Direct et n)) et n = (None, b)"
proof -
  define ks where "ks = set_ordinals b n"
  have ks: "set ks = {k. 0 \<le> k \<and> k < n \<and> bitflag_Has b k}"
    by (simp add: ks_def set_set_ordinals)
  from nonempty obtain i where i: "bit b i" by (auto simp: bit_eq_iff)
  with subset have "int i \<in> set ks" by (simp add: ks bitflag_Has_def)
  then have ne: "ks \<noteq> []" by auto
  have enc: "BitFlagsToString b (Direct et n) = join_bar (map (\<lambda>k. EnumInt64ToString k et) ks)"
    using BitFlagsToString_loop_foldl [of et b n 0 "[]"]
      foldl_append_name [of ks et "[]"] named ks
    by (simp add: BitFlagsToString_def EnumIfaceToInt64_def ks_def set_ordinals_def)
  have "Split (join_bar (map (\<lambda>k. EnumInt64ToString k et) ks)) CHR ''|''
      = map (\<lambda>k. EnumInt64ToString k et) ks"
    using ne nobar ks by (intro Split_join_bar) auto
  moreover have "BitFlagsTypeFromString_loop (map (\<lambda>k. EnumInt64ToString k et) ks) (Pointer et 0) None 0
      = (None, foldl bitflag_Set 0 ks)"
    using BitFlagsTypeFromString_loop_parsed [OF meth, of ks 0 None 0] parse ks by auto
  moreover have "foldl bitflag_Set 0 ks = b"
  proof (rule bit_eqI)
    fix j
    have "bit (foldl bitflag_Set 0 ks) j \<longleftrightarrow> (\<exists>k \<in> set ks. 0 \<le> k \<and> j = nat k \<and> j < 64)"
      by (simp add: bit_foldl_bitflag_Set)
    also have "\<dots> \<longleftrightarrow> bit b j"
    proof
      assume "\<exists>k \<in> set ks. 0 \<le> k \<and> j = nat k \<and> j < 64"
      then show "bit b j" by (auto simp: ks bitflag_Has_def)
    next
      assume j: "bit b j"
      then have "j < 64" by (auto dest: bit_imp_le_length)
      moreover from j subset have "int j \<in> set ks" by (simp add: ks bitflag_Has_def)
      ultimately show "\<exists>k \<in> set ks. 0 \<le> k \<and> j = nat k \<and> j < 64"
        by (intro bexI [of _ "int j"]) auto
    qed
    finally show "bit (foldl bitflag_Set 0 ks) j \<longleftrightarrow> bit b j" .
  qed
  ultimately show ?thesis
    by (simp add: BitFlagsTypeFromString_def enc reflect_New_def)
qed

end
